theory Spec2Isabelle
  imports Complex_Main
begin

section \<open>Utilities of the media-mix package: half-normal and Beta helpers\<close>

text \<open>
  The embedding reads Python and NumPy floating-point numbers as exact reals: rounding to
  the nearest double and overflow are outside the model. Two things floating point does
  are inside it. At a division by zero a Python \<^verbatim>\<open>float\<close> division raises
  \<^verbatim>\<open>ZeroDivisionError\<close>, and a NumPy array division returns \<^verbatim>\<open>nan\<close> or an infinity
  and goes on. And the Gaussian kernel of the continuous estimator underflows: far from
  its centre its value is \<open>0.0\<close>, not a small positive number.
\<close>

datatype error =
    Zero_Division_Error   \<comment> \<open>Python: float division by zero\<close>
  | Unbound_Local_Error   \<comment> \<open>Python: a local variable read before any assignment\<close>
  | Index_Error           \<comment> \<open>indexing an array of size 0\<close>
  | Attribute_Error       \<comment> \<open>\<^verbatim>\<open>.sum()\<close> on the Python int \<^verbatim>\<open>0\<close>\<close>
  | Value_Error           \<comment> \<open>\<^verbatim>\<open>min\<close>/\<open>max\<close> of an array of size 0\<close>
  | Root_Not_Bracketed    \<comment> \<open>the root-finder's error: no sign change over the bracket\<close>
  | Empty_Input           \<comment> \<open>the two-sample statistic's error on an empty sample\<close>
  | Invalid_Method        \<comment> \<open>the specification's invalid-method error; no line of the code raises it\<close>

subsection \<open>Half-normal conversions\<close>

definition get_halfnormal_mean_from_scale :: "real \<Rightarrow> real" where
  "get_halfnormal_mean_from_scale scale = scale * sqrt 2 / sqrt pi"

definition get_halfnormal_scale_from_mean :: "real \<Rightarrow> real" where
  "get_halfnormal_scale_from_mean mean = mean * sqrt pi / sqrt 2"

subsection \<open>Moment matching for the Beta distribution\<close>

text \<open>
  The inner function \<^verbatim>\<open>_f\<close> of \<^verbatim>\<open>get_beta_params_from_mu_sigma\<close>:
  \<^verbatim>\<open>x ** 2 + 4 * x + 5 + 2 / x - 1 / sigma ** 2\<close>. Both divisions are Python float
  divisions, \<^verbatim>\<open>2 / x\<close> is evaluated first.
\<close>

definition inner_f :: "real \<Rightarrow> real \<Rightarrow> error + real" where
  "inner_f sigma x =
     (if x = 0 then Inl Zero_Division_Error
      else if sigma ^ 2 = 0 then Inl Zero_Division_Error
      else Inr (x ^ 2 + 4 * x + 5 + 2 / x - 1 / sigma ^ 2))"

text \<open>
  \<^verbatim>\<open>optimize.root_scalar(_f, bracket=bracket, method="brentq")\<close> belongs to SciPy, not to
  this repository: the solver takes the root-finder as its first argument. A root-finder
  receives the function and the bracket and returns a root or raises.
\<close>

type_synonym root_finder = "(real \<Rightarrow> error + real) \<Rightarrow> real \<times> real \<Rightarrow> error + real"

definition get_beta_params_from_mu_sigma ::
  "root_finder \<Rightarrow> real \<Rightarrow> real \<Rightarrow> real \<times> real \<Rightarrow> error + real \<times> real" where
  "get_beta_params_from_mu_sigma root_scalar mu sigma bracket =
     (case root_scalar (inner_f sigma) bracket of
        Inl e \<Rightarrow> Inl e
      | Inr b \<Rightarrow>
          \<comment> \<open>\<^verbatim>\<open>a = b / (1 / mu - 1)\<close>\<close>
          if mu = 0 then Inl Zero_Division_Error
          else if 1 / mu - 1 = 0 then Inl Zero_Division_Error
          else Inr (b / (1 / mu - 1), b))"

text \<open>
  Modelled from the spec: the bracketed scalar root-finder is SciPy's, not part of this
  repository. Sections 4.4 and 6 of the specification ask this of it, at one function and
  one bracket:
  an error of the function at an endpoint is passed on; when the function has the same
  strict sign at both endpoints the root-finder raises the root-not-bracketed error;
  otherwise it returns a root of the function lying in the bracket.
\<close>

definition bracketed_root_finder ::
  "root_finder \<Rightarrow> (real \<Rightarrow> error + real) \<Rightarrow> real \<times> real \<Rightarrow> bool" where
  "bracketed_root_finder root_scalar g bracket =
     (case g (fst bracket) of
        Inl e \<Rightarrow> root_scalar g bracket = Inl e
      | Inr ga \<Rightarrow>
         (case g (snd bracket) of
            Inl e \<Rightarrow> root_scalar g bracket = Inl e
          | Inr gb \<Rightarrow>
              if ga * gb > 0 then root_scalar g bracket = Inl Root_Not_Bracketed
              else (\<exists>r. root_scalar g bracket = Inr r \<and> g r = Inr 0
                        \<and> min (fst bracket) (snd bracket) \<le> r
                        \<and> r \<le> max (fst bracket) (snd bracket))))"

text \<open>
  Modelled from the spec: one bracketed root-finder in the sense of section 4.4, plain
  bisection. It tests the endpoints, then halves the bracket at most \<open>n\<close> times and
  stops at a midpoint where the function is zero. The properties of the solver are
  evaluated with it.
\<close>

fun bisect :: "nat \<Rightarrow> (real \<Rightarrow> error + real) \<Rightarrow> real \<Rightarrow> real \<Rightarrow> real \<Rightarrow> error + real" where
  "bisect 0 g lo glo hi = Inr ((lo + hi) / 2)"
| "bisect (Suc n) g lo glo hi =
     (case g ((lo + hi) / 2) of
        Inl e \<Rightarrow> Inl e
      | Inr gm \<Rightarrow>
          if gm = 0 then Inr ((lo + hi) / 2)
          else if glo * gm < 0 then bisect n g lo glo ((lo + hi) / 2)
          else bisect n g ((lo + hi) / 2) gm hi)"

definition bisection :: root_finder where
  "bisection g bracket =
     (case g (fst bracket) of
        Inl e \<Rightarrow> Inl e
      | Inr ga \<Rightarrow>
         (case g (snd bracket) of
            Inl e \<Rightarrow> Inl e
          | Inr gb \<Rightarrow>
              if ga = 0 then Inr (fst bracket)
              else if gb = 0 then Inr (snd bracket)
              else if ga * gb > 0 then Inl Root_Not_Bracketed
              else bisect 100 g (fst bracket) ga (snd bracket)))"


section \<open>Distance between two sample collections\<close>

subsection \<open>NumPy floating-point values\<close>

text \<open>
  An array entry is a real number, an infinity or \<^verbatim>\<open>nan\<close>. The operations below are the
  ones the distance function applies to arrays; on real numbers they are exact, on the
  special values they follow IEEE 754 (signed zeros are not told apart: a zero divisor
  counts as \<open>+0\<close>). None of them raises: NumPy warns and goes on.
\<close>

datatype npfloat = Fin real | PInf | NInf | NaN

fun np_negative :: "npfloat \<Rightarrow> npfloat" where
  "np_negative (Fin a) = Fin (- a)"
| "np_negative PInf = NInf"
| "np_negative NInf = PInf"
| "np_negative NaN = NaN"

fun np_add :: "npfloat \<Rightarrow> npfloat \<Rightarrow> npfloat" where
  "np_add (Fin a) (Fin b) = Fin (a + b)"
| "np_add NaN _ = NaN"
| "np_add _ NaN = NaN"
| "np_add PInf NInf = NaN"
| "np_add NInf PInf = NaN"
| "np_add PInf _ = PInf"
| "np_add _ PInf = PInf"
| "np_add NInf _ = NInf"
| "np_add _ NInf = NInf"

definition np_subtract :: "npfloat \<Rightarrow> npfloat \<Rightarrow> npfloat" where
  "np_subtract a b = np_add a (np_negative b)"

text \<open>\<^verbatim>\<open>a ** 2\<close>\<close>

fun np_square :: "npfloat \<Rightarrow> npfloat" where
  "np_square (Fin a) = Fin (a ^ 2)"
| "np_square PInf = PInf"
| "np_square NInf = PInf"
| "np_square NaN = NaN"

fun np_sqrt :: "npfloat \<Rightarrow> npfloat" where
  "np_sqrt (Fin a) = (if a < 0 then NaN else Fin (sqrt a))"
| "np_sqrt PInf = PInf"
| "np_sqrt NInf = NaN"
| "np_sqrt NaN = NaN"

text \<open>\<^verbatim>\<open>np.minimum\<close> returns \<^verbatim>\<open>nan\<close> as soon as one argument is \<^verbatim>\<open>nan\<close>.\<close>

fun np_minimum :: "npfloat \<Rightarrow> npfloat \<Rightarrow> npfloat" where
  "np_minimum (Fin a) (Fin b) = Fin (min a b)"
| "np_minimum NaN _ = NaN"
| "np_minimum _ NaN = NaN"
| "np_minimum NInf _ = NInf"
| "np_minimum _ NInf = NInf"
| "np_minimum PInf b = b"
| "np_minimum a PInf = a"

text \<open>True division \<^verbatim>\<open>a / b\<close> of arrays and array scalars.\<close>

fun np_true_divide :: "npfloat \<Rightarrow> npfloat \<Rightarrow> npfloat" where
  "np_true_divide (Fin a) (Fin b) =
     (if b = 0 then (if a = 0 then NaN else if 0 < a then PInf else NInf)
      else Fin (a / b))"
| "np_true_divide NaN _ = NaN"
| "np_true_divide _ NaN = NaN"
| "np_true_divide (Fin a) _ = Fin 0"
| "np_true_divide PInf (Fin b) = (if b < 0 then NInf else PInf)"
| "np_true_divide NInf (Fin b) = (if b < 0 then PInf else NInf)"
| "np_true_divide _ _ = NaN"

text \<open>The sum of an array (\<^verbatim>\<open>.sum()\<close>, \<^verbatim>\<open>jnp.sum\<close>); the sum of no entries is 0.\<close>

definition np_sum :: "npfloat list \<Rightarrow> npfloat" where
  "np_sum xs = foldr np_add xs (Fin 0)"

subsection \<open>The discrete mass estimator\<close>

text \<open>\<^verbatim>\<open>jnp.unique\<close>: the sorted distinct values of an array.\<close>

definition unique :: "real list \<Rightarrow> real list" where
  "unique xs = sort (remdups xs)"

text \<open>\<^verbatim>\<open>jnp.sum(p <= x[i])\<close>: the number of samples not above a grid point.\<close>

definition count_le :: "real list \<Rightarrow> real \<Rightarrow> int" where
  "count_le p t = int (length (filter (\<lambda>s. s \<le> t) p))"

text \<open>\<^verbatim>\<open>jnp.diff\<close>: the differences of consecutive entries.\<close>

fun diff :: "int list \<Rightarrow> int list" where
  "diff (a # b # cs) = (b - a) # diff (b # cs)"
| "diff _ = []"

text \<open>
  \<^verbatim>\<open>_pmf\<close>, up to the local variable \<^verbatim>\<open>p_pmf\<close>: the counts at the grid points, then
  the first count followed by the differences. With an empty grid \<^verbatim>\<open>p_cdf\<close> is an
  array of size 0 and \<^verbatim>\<open>p_cdf[0]\<close> raises.
\<close>

definition pmf_counts :: "real list \<Rightarrow> real list \<Rightarrow> error + int list" where
  "pmf_counts p x =
     (let p_cdf = map (count_le p) x in
      case p_cdf of
        [] \<Rightarrow> Inl Index_Error
      | c0 # _ \<Rightarrow> Inr (c0 # diff p_cdf))"

text \<open>
  \<^verbatim>\<open>_pmf\<close>: \<^verbatim>\<open>p_pmf / p_pmf.sum()\<close>. The division is an array division: a zero
  total gives \<^verbatim>\<open>nan\<close> and infinities, not an error.
\<close>

definition pmf :: "real list \<Rightarrow> real list \<Rightarrow> error + npfloat list" where
  "pmf p x =
     (case pmf_counts p x of
        Inl e \<Rightarrow> Inl e
      | Inr p_pmf \<Rightarrow>
          Inr (map (\<lambda>m. np_true_divide (Fin (of_int m)) (Fin (of_int (sum_list p_pmf)))) p_pmf))"

subsection \<open>The continuous density estimator\<close>

text \<open>
  Underflow of a double: a result whose magnitude is at most \<open>2 ^ -1075\<close>, half the
  least positive double, is \<open>0.0\<close>. A larger result is kept as the exact real.
\<close>

definition underflow :: "real \<Rightarrow> real" where
  "underflow v = (if \<bar>v\<bar> \<le> 1 / 2 ^ 1075 then 0 else v)"

text \<open>
  \<^verbatim>\<open>stats.norm(xi).pdf(t)\<close>: the density at \<open>t\<close> of the normal law of mean \<open>xi\<close> and
  variance 1, computed as \<^verbatim>\<open>exp(-(t - xi) ** 2 / 2) / sqrt(2 * pi)\<close>. The exponential
  and the quotient are doubles, and each underflows.
\<close>

definition norm_pdf :: "real \<Rightarrow> real \<Rightarrow> real" where
  "norm_pdf xi t = underflow (underflow (exp (- ((t - xi) ^ 2) / 2)) / sqrt (2 * pi))"

text \<open>
  \<^verbatim>\<open>_estimate_pdf\<close>. Python's \<^verbatim>\<open>sum\<close> starts from the int 0 and adds one array per
  sample; with no sample it returns that int, which has no \<^verbatim>\<open>sum\<close> method.
\<close>

definition estimate_pdf :: "real list \<Rightarrow> real list \<Rightarrow> error + npfloat list" where
  "estimate_pdf p x =
     (if p = [] then Inl Attribute_Error
      else
        let density = foldl (\<lambda>acc xi. map2 (+) acc (map (norm_pdf xi) x))
                        (replicate (length x) 0) p;
            total = sum_list density
        in Inr (map (\<lambda>d. np_true_divide (Fin d) (Fin total)) density))"

text \<open>\<^verbatim>\<open>np.linspace(start, stop, num)\<close>: \<open>num\<close> points, the step is
  \<open>(stop - start) / (num - 1)\<close>.\<close>

definition linspace :: "real \<Rightarrow> real \<Rightarrow> nat \<Rightarrow> real list" where
  "linspace start stop num =
     map (\<lambda>i. start + real i * ((stop - start) / real (num - 1))) [0..<num]"

text \<open>\<^verbatim>\<open>p.min()\<close> and \<^verbatim>\<open>p.max()\<close>: a reduction with no identity raises on an empty array.\<close>

definition amin :: "real list \<Rightarrow> error + real" where
  "amin p = (if p = [] then Inl Value_Error else Inr (Min (set p)))"

definition amax :: "real list \<Rightarrow> error + real" where
  "amax p = (if p = [] then Inl Value_Error else Inr (Max (set p)))"

subsection \<open>The two library metrics\<close>

text \<open>
  Modelled from the spec: \<^verbatim>\<open>stats.ks_2samp(p, q).statistic\<close> is SciPy's, not part of
  this repository. By sections 4.3 and 7 of the specification the two-sample
  Kolmogorov-Smirnov statistic is the maximum absolute difference between the two collections' empirical
  distribution functions over their pooled values, and an empty collection is rejected
  with the empty-input error.
\<close>

definition ecdf :: "real list \<Rightarrow> real \<Rightarrow> real" where
  "ecdf p t = real (length (filter (\<lambda>s. s \<le> t) p)) / real (length p)"

definition ks_2samp :: "real list \<Rightarrow> real list \<Rightarrow> error + npfloat" where
  "ks_2samp p q =
     (if p = [] \<or> q = [] then Inl Empty_Input
      else Inr (Fin (Max ((\<lambda>t. \<bar>ecdf p t - ecdf q t\<bar>) ` set (p @ q)))))"

text \<open>
  Modelled from the spec: \<^verbatim>\<open>spatial.distance.jensenshannon\<close> is SciPy's, not part of
  this repository. By section 4.3 of the specification it is the square root of the
  Jensen-Shannon divergence of two normalized vectors: half the sum of the relative entropies of each
  vector to their midpoint, with the natural logarithm. An entry that is not a real
  number makes the result \<^verbatim>\<open>nan\<close>.
\<close>

definition rel_entr :: "real \<Rightarrow> real \<Rightarrow> real" where
  "rel_entr a m = (if 0 < a \<and> 0 < m then a * ln (a / m) else 0)"

fun js_term :: "npfloat \<Rightarrow> npfloat \<Rightarrow> npfloat" where
  "js_term (Fin a) (Fin b) = Fin (rel_entr a ((a + b) / 2) + rel_entr b ((a + b) / 2))"
| "js_term _ _ = NaN"

definition jensenshannon :: "npfloat list \<Rightarrow> npfloat list \<Rightarrow> npfloat" where
  "jensenshannon u v = np_sqrt (np_true_divide (np_sum (map2 js_term u v)) (Fin 2))"

subsection \<open>The distance function\<close>

text \<open>
  The two grids of \<^verbatim>\<open>distance_pior_posterior\<close>: the distinct values of both collections,
  and 100 points from the joint minimum to the joint maximum. The four reductions are
  evaluated in the order \<^verbatim>\<open>p.min(), q.min(), p.max(), q.max()\<close>.
\<close>

definition discrete_grid :: "real list \<Rightarrow> real list \<Rightarrow> real list" where
  "discrete_grid p q = unique (p @ q)"

definition continuous_grid :: "real list \<Rightarrow> real list \<Rightarrow> error + real list" where
  "continuous_grid p q =
     (case amin p of Inl e \<Rightarrow> Inl e | Inr pmin \<Rightarrow>
      case amin q of Inl e \<Rightarrow> Inl e | Inr qmin \<Rightarrow>
      case amax p of Inl e \<Rightarrow> Inl e | Inr pmax \<Rightarrow>
      case amax q of Inl e \<Rightarrow> Inl e | Inr qmax \<Rightarrow>
        Inr (linspace (min pmin qmin) (max pmax qmax) 100))"

text \<open>The branch \<^verbatim>\<open>if discrete: ... else: ...\<close> that builds \<^verbatim>\<open>p_pdf\<close> and \<^verbatim>\<open>q_pdf\<close>.\<close>

definition build_pdfs ::
  "real list \<Rightarrow> real list \<Rightarrow> bool \<Rightarrow> error + npfloat list \<times> npfloat list" where
  "build_pdfs p q discrete =
     (if discrete then
        (let x = discrete_grid p q in
         case pmf p x of Inl e \<Rightarrow> Inl e | Inr p_pdf \<Rightarrow>
         case pmf q x of Inl e \<Rightarrow> Inl e | Inr q_pdf \<Rightarrow> Inr (p_pdf, q_pdf))
      else
        (case continuous_grid p q of Inl e \<Rightarrow> Inl e | Inr x \<Rightarrow>
         case estimate_pdf p x of Inl e \<Rightarrow> Inl e | Inr p_pdf \<Rightarrow>
         case estimate_pdf q x of Inl e \<Rightarrow> Inl e | Inr q_pdf \<Rightarrow> Inr (p_pdf, q_pdf)))"

definition hellinger :: "npfloat list \<Rightarrow> npfloat list \<Rightarrow> npfloat" where
  "hellinger p_pdf q_pdf =
     np_true_divide
       (np_sqrt (np_sum (map np_square
          (map2 np_subtract (map np_sqrt p_pdf) (map np_sqrt q_pdf)))))
       (Fin (sqrt 2))"

definition min_overlap :: "npfloat list \<Rightarrow> npfloat list \<Rightarrow> npfloat" where
  "min_overlap p_pdf q_pdf = np_subtract (Fin 1) (np_sum (map2 np_minimum p_pdf q_pdf))"

text \<open>
  \<^verbatim>\<open>distance_pior_posterior\<close>. The vectors \<^verbatim>\<open>p_pdf\<close> and \<^verbatim>\<open>q_pdf\<close> are assigned only
  when the method is one of \<^verbatim>\<open>"Hellinger"\<close>, \<^verbatim>\<open>"JS"\<close>, \<^verbatim>\<open>"min"\<close>; the last
  \<^verbatim>\<open>else\<close> reads them whatever the method is, and reading an unassigned local variable
  raises.
\<close>

definition distance_pior_posterior ::
  "real list \<Rightarrow> real list \<Rightarrow> string \<Rightarrow> bool \<Rightarrow> error + npfloat" where
  "distance_pior_posterior p q method discrete =
     (if method = ''KS'' then ks_2samp p q
      else
        case (if method \<in> set [''Hellinger'', ''JS'', ''min'']
              then map_sum id Some (build_pdfs p q discrete)
              else Inr None) of
          Inl e \<Rightarrow> Inl e
        | Inr pdfs \<Rightarrow>
            if method = ''Hellinger'' then
              (case pdfs of None \<Rightarrow> Inl Unbound_Local_Error
               | Some (p_pdf, q_pdf) \<Rightarrow> Inr (hellinger p_pdf q_pdf))
            else if method = ''JS'' then
              (case pdfs of None \<Rightarrow> Inl Unbound_Local_Error
               | Some (p_pdf, q_pdf) \<Rightarrow> Inr (jensenshannon p_pdf q_pdf))
            else
              (case pdfs of None \<Rightarrow> Inl Unbound_Local_Error
               | Some (p_pdf, q_pdf) \<Rightarrow> Inr (min_overlap p_pdf q_pdf)))"
section \<open>Properties\<close>

subsection \<open>Half-normal conversions\<close>

text \<open>
  C9. The two half-normal helpers are inverse to each other, in both orders: one
  multiplies by \<open>sqrt 2 / sqrt pi\<close>, the other by \<open>sqrt pi / sqrt 2\<close>.
\<close>

theorem halfnormal_helpers_inverse:
  "get_halfnormal_scale_from_mean (get_halfnormal_mean_from_scale s) = s
   \<and> get_halfnormal_mean_from_scale (get_halfnormal_scale_from_mean m) = m"
  by (simp add: get_halfnormal_scale_from_mean_def get_halfnormal_mean_from_scale_def)

subsection \<open>The solver\<close>

lemma inner_f_minus: "inner_f (- sigma) = inner_f sigma"
  by (rule ext) (simp add: inner_f_def)

text \<open>
  C10. The solver reads sigma only through its square: with \<open>- sigma\<close> in place of
  \<open>sigma\<close> it returns the same outcome, whatever the root-finder, the mean and the bracket.
\<close>

theorem get_beta_params_even_in_sigma:
  "get_beta_params_from_mu_sigma root_scalar mu (- sigma) bracket
   = get_beta_params_from_mu_sigma root_scalar mu sigma bracket"
  by (simp add: get_beta_params_from_mu_sigma_def inner_f_minus)


lemma bisect_midpoint_root:
  "g ((lo + hi) / 2) = Inr 0 \<Longrightarrow> 0 < n \<Longrightarrow> bisect n g lo glo hi = Inr ((lo + hi) / 2)"
  by (cases n) simp_all

lemma inner_f_positive:
  "0 < x \<Longrightarrow> sigma \<noteq> 0 \<Longrightarrow>
     inner_f sigma x = Inr (x ^ 2 + 4 * x + 5 + 2 / x - 1 / sigma ^ 2)"
  by (simp add: inner_f_def)

lemma inner_f_example_root: "inner_f (10 / 39) (8 / 5) = Inr 0"
  by (simp add: inner_f_def power2_eq_square)

lemma inner_f_example_lo: "inner_f (10 / 39) (1 / 2) = Inr (- (99 / 25))"
  by (simp add: inner_f_def power2_eq_square)

lemma inner_f_example_hi: "inner_f (10 / 39) (27 / 10) = Inr (5819 / 675)"
  by (simp add: inner_f_def power2_eq_square)

lemma bisection_example:
  "bisection (inner_f (10 / 39)) (1 / 2, 27 / 10) = Inr (8 / 5)"
proof -
  have m: "inner_f (10 / 39) ((1 / 2 + 27 / 10) / 2) = Inr 0"
    using inner_f_example_root by simp
  have "bisect 100 (inner_f (10 / 39)) (1 / 2) (- (99 / 25)) (27 / 10)
        = Inr ((1 / 2 + 27 / 10) / 2)"
    using bisect_midpoint_root [of "inner_f (10 / 39)" "1 / 2" "27 / 10" 100, OF m] by simp
  then show ?thesis
    by (simp add: bisection_def inner_f_example_lo inner_f_example_hi)
qed

lemma bracketed_root_finder_example:
  "bracketed_root_finder bisection (inner_f (10 / 39)) (1 / 2, 27 / 10)"
proof -
  have "\<exists>r. bisection (inner_f (10 / 39)) (1 / 2, 27 / 10) = Inr r
      \<and> inner_f (10 / 39) r = Inr 0 \<and> min (1 / 2) (27 / 10) \<le> r \<and> r \<le> max (1 / 2) (27 / 10)"
    using inner_f_example_root bisection_example by (intro exI [of _ "8 / 5"]) simp
  then show ?thesis
    unfolding bracketed_root_finder_def
    by (simp add: inner_f_example_lo inner_f_example_hi)
qed

text \<open>
  The inner function is continuous on a bracket of positive numbers, so by the
  intermediate value theorem some root-finder meets the specification at every sigma
  other than 0 and every such bracket: the hypothesis on the root-finder below can be met
  wherever it is used.
\<close>

lemma inner_f_continuous:
  assumes "0 < lo"
  shows "continuous_on {lo..hi} (\<lambda>x. x ^ 2 + 4 * x + 5 + 2 / x - c :: real)"
  using assms by (intro continuous_intros) auto

lemma inner_f_has_root:
  fixes lo hi c :: real
  assumes "0 < lo" and "lo \<le> hi"
    and "(lo ^ 2 + 4 * lo + 5 + 2 / lo - c) * (hi ^ 2 + 4 * hi + 5 + 2 / hi - c) \<le> 0"
  shows "\<exists>r. lo \<le> r \<and> r \<le> hi \<and> r ^ 2 + 4 * r + 5 + 2 / r - c = 0"
proof -
  let ?g = "\<lambda>x. x ^ 2 + 4 * x + 5 + 2 / x - c"
  have cont: "continuous_on {lo..hi} ?g"
    by (rule inner_f_continuous [OF assms(1)])
  from assms(3) consider "?g lo \<le> 0" "0 \<le> ?g hi" | "?g hi \<le> 0" "0 \<le> ?g lo"
    by (auto simp: mult_le_0_iff)
  then show ?thesis
  proof cases
    case 1
    from IVT' [of ?g lo 0 hi, OF 1 assms(2) cont] show ?thesis by blast
  next
    case 2
    from IVT2' [of ?g hi 0 lo, OF 2 assms(2) cont] show ?thesis by blast
  qed
qed

lemma bracketed_root_finder_exists:
  assumes "0 < lo" and "lo \<le> hi" and "sigma \<noteq> 0"
  shows "\<exists>root_scalar. bracketed_root_finder root_scalar (inner_f sigma) (lo, hi)"
proof -
  let ?g = "\<lambda>x. x ^ 2 + 4 * x + 5 + 2 / x - 1 / sigma ^ 2"
  have hi: "0 < hi" using assms by simp
  have a: "inner_f sigma lo = Inr (?g lo)" and b: "inner_f sigma hi = Inr (?g hi)"
    using assms hi by (simp_all add: inner_f_def)
  show ?thesis
  proof (cases "0 < ?g lo * ?g hi")
    case True
    define rs :: root_finder where "rs = (\<lambda>g bracket. Inl Root_Not_Bracketed)"
    from True have "bracketed_root_finder rs (inner_f sigma) (lo, hi)"
      by (simp add: bracketed_root_finder_def a b rs_def)
    then show ?thesis by blast
  next
    case False
    then have "?g lo * ?g hi \<le> 0" by simp
    from inner_f_has_root [OF assms(1,2) this] obtain r where
      r: "lo \<le> r" "r \<le> hi" "?g r = 0"
      by blast
    then have root: "inner_f sigma r = Inr 0"
      using assms by (simp add: inner_f_def)
    define rs :: root_finder where "rs = (\<lambda>g bracket. Inr r)"
    from root r False assms(2) have "bracketed_root_finder rs (inner_f sigma) (lo, hi)"
      by (simp add: bracketed_root_finder_def a b rs_def)
    then show ?thesis by blast
  qed
qed

text \<open>
  Two values of the inner function differ by a product, from which a bracket of positive
  numbers over which the function changes sign holds one root only.
\<close>

lemma inner_f_difference:
  fixes u v c :: real
  assumes "0 < u" and "0 < v"
  shows "(u ^ 2 + 4 * u + 5 + 2 / u - c) - (v ^ 2 + 4 * v + 5 + 2 / v - c)
      = (u - v) * (u + v + 4 - 2 / (u * v))"
  using assms by (simp add: field_simps power2_eq_square)

lemma inner_f_two_roots:
  fixes m M r1 r2 c :: real
  assumes m: "0 < m" and order: "m \<le> r1" "r1 < r2" "r2 \<le> M"
    and r1: "r1 ^ 2 + 4 * r1 + 5 + 2 / r1 - c = 0"
    and r2: "r2 ^ 2 + 4 * r2 + 5 + 2 / r2 - c = 0"
    and sign: "(m ^ 2 + 4 * m + 5 + 2 / m - c) * (M ^ 2 + 4 * M + 5 + 2 / M - c) < 0"
  shows False
proof -
  have pos: "0 < r1" "0 < r2" "0 < M"
    using m order by simp_all
  have "(r2 - r1) * (r2 + r1 + 4 - 2 / (r2 * r1)) = 0"
    using inner_f_difference [OF pos(2) pos(1), of c] r1 r2 by simp
  then have mid: "r2 + r1 + 4 = 2 / (r2 * r1)"
    using order(2) by simp
  from sign consider
      (up) "m ^ 2 + 4 * m + 5 + 2 / m - c < 0"
    | (down) "M ^ 2 + 4 * M + 5 + 2 / M - c < 0"
    by (auto simp: mult_less_0_iff)
  then show False
  proof cases
    case up
    with r1 have "m \<noteq> r1" by auto
    with order(1) have lt: "m < r1" by simp
    have "0 < (r1 - m) * (r1 + m + 4 - 2 / (r1 * m))"
      using inner_f_difference [OF pos(1) m, of c] r1 up by simp
    then have "0 < r1 + m + 4 - 2 / (r1 * m)"
      using lt by (simp add: zero_less_mult_iff)
    moreover have "2 / (r2 * r1) \<le> 2 / (r1 * m)"
      using m pos lt order(2) by (intro divide_left_mono mult_pos_pos)
        (simp_all add: mult.commute [of r2 r1])
    ultimately show False
      using mid lt order(2) by simp
  next
    case down
    with r2 have "r2 \<noteq> M" by auto
    with order(3) have lt: "r2 < M" by simp
    have "(M - r2) * (M + r2 + 4 - 2 / (M * r2)) < 0"
      using inner_f_difference [OF pos(3) pos(2), of c] r2 down by simp
    then have "M + r2 + 4 - 2 / (M * r2) < 0"
      using lt by (simp add: mult_less_0_iff)
    moreover have "2 / (M * r2) \<le> 2 / (r2 * r1)"
      using pos lt order(2) by (intro divide_left_mono mult_pos_pos)
        (simp_all add: mult.commute [of M r2])
    ultimately show False
      using mid lt order(2) by simp
  qed
qed

lemma inner_f_root_unique:
  fixes lo hi r b c :: real
  assumes pos: "0 < lo" "0 < hi"
    and sign: "(lo ^ 2 + 4 * lo + 5 + 2 / lo - c) * (hi ^ 2 + 4 * hi + 5 + 2 / hi - c) < 0"
    and r: "min lo hi \<le> r" "r \<le> max lo hi" "r ^ 2 + 4 * r + 5 + 2 / r - c = 0"
    and b: "min lo hi \<le> b" "b \<le> max lo hi" "b ^ 2 + 4 * b + 5 + 2 / b - c = 0"
  shows "r = b"
proof (rule ccontr)
  assume ne: "r \<noteq> b"
  have m: "0 < min lo hi"
    using pos by simp
  have sign': "((min lo hi) ^ 2 + 4 * min lo hi + 5 + 2 / min lo hi - c)
      * ((max lo hi) ^ 2 + 4 * max lo hi + 5 + 2 / max lo hi - c) < 0"
    using sign by (cases "lo \<le> hi") (simp_all add: min_def max_def mult.commute)
  from ne consider "r < b" | "b < r"
    by linarith
  then show False
  proof cases
    case 1
    from inner_f_two_roots [OF m r(1) 1 b(2) r(3) b(3) sign'] show False .
  next
    case 2
    from inner_f_two_roots [OF m b(1) 2 r(2) b(3) r(3) sign'] show False .
  qed
qed

text \<open>
  C3. For a mean strictly between 0 and 1, a positive sigma and a bracket with positive
  endpoints, write \<open>f b = b\<^sup>2 + 4 b + 5 + 2 / b - 1 / sigma\<^sup>2\<close>, and take a root-finder
  that does at this function and bracket what the specification asks of a bracketed
  root-finder. When \<open>f\<close> does not have the same strict sign at the two endpoints, the
  solver returns \<open>(a, b)\<close> with \<open>f b = 0\<close>, \<open>b\<close> inside the bracket,
  \<open>a = b / (1 / mu - 1)\<close> and both positive. When the signs are strictly opposite,
  \<open>f\<close> has one root only in the bracket, so each root \<open>r\<close> of \<open>f\<close> in the bracket
  gives the returned pair. When \<open>f\<close> has the same strict sign at both endpoints the
  solver raises the root-not-bracketed error.
\<close>

theorem get_beta_params_root_in_bracket:
  assumes mu: "0 < mu" "mu < 1"
    and sigma: "0 < sigma"
    and pos: "0 < lo" "0 < hi"
    and rf: "bracketed_root_finder root_scalar (inner_f sigma) (lo, hi)"
  shows "((lo ^ 2 + 4 * lo + 5 + 2 / lo - 1 / sigma ^ 2)
            * (hi ^ 2 + 4 * hi + 5 + 2 / hi - 1 / sigma ^ 2) \<le> 0 \<longrightarrow>
           (\<exists>a b. get_beta_params_from_mu_sigma root_scalar mu sigma (lo, hi) = Inr (a, b)
              \<and> b ^ 2 + 4 * b + 5 + 2 / b - 1 / sigma ^ 2 = 0
              \<and> min lo hi \<le> b \<and> b \<le> max lo hi
              \<and> a = b / (1 / mu - 1) \<and> 0 < a \<and> 0 < b))
      \<and> ((lo ^ 2 + 4 * lo + 5 + 2 / lo - 1 / sigma ^ 2)
            * (hi ^ 2 + 4 * hi + 5 + 2 / hi - 1 / sigma ^ 2) < 0 \<longrightarrow>
           (\<forall>r. min lo hi \<le> r \<and> r \<le> max lo hi
                \<and> r ^ 2 + 4 * r + 5 + 2 / r - 1 / sigma ^ 2 = 0 \<longrightarrow>
              get_beta_params_from_mu_sigma root_scalar mu sigma (lo, hi)
                = Inr (r / (1 / mu - 1), r)))
      \<and> (0 < (lo ^ 2 + 4 * lo + 5 + 2 / lo - 1 / sigma ^ 2)
            * (hi ^ 2 + 4 * hi + 5 + 2 / hi - 1 / sigma ^ 2) \<longrightarrow>
           get_beta_params_from_mu_sigma root_scalar mu sigma (lo, hi) = Inl Root_Not_Bracketed)"
proof -
  let ?f = "\<lambda>x. x ^ 2 + 4 * x + 5 + 2 / x - 1 / sigma ^ 2"
  have fa: "inner_f sigma lo = Inr (?f lo)" and fb: "inner_f sigma hi = Inr (?f hi)"
    using pos sigma by (simp_all add: inner_f_positive)
  have den: "0 < 1 / mu - 1"
    using mu by (simp add: field_simps)
  have bracketed: "\<exists>b. get_beta_params_from_mu_sigma root_scalar mu sigma (lo, hi)
        = Inr (b / (1 / mu - 1), b)
      \<and> ?f b = 0 \<and> min lo hi \<le> b \<and> b \<le> max lo hi
      \<and> 0 < b / (1 / mu - 1) \<and> 0 < b" if "?f lo * ?f hi \<le> 0"
  proof -
    from rf fa fb that obtain b where b: "root_scalar (inner_f sigma) (lo, hi) = Inr b"
      "inner_f sigma b = Inr 0" "min lo hi \<le> b" "b \<le> max lo hi"
      by (auto simp: bracketed_root_finder_def)
    from b(3) pos have bpos: "0 < b" by (simp add: min_def split: if_splits)
    from b(2) bpos sigma have root: "?f b = 0"
      by (simp add: inner_f_positive)
    have "get_beta_params_from_mu_sigma root_scalar mu sigma (lo, hi) = Inr (b / (1 / mu - 1), b)"
      using b(1) mu den by (simp add: get_beta_params_from_mu_sigma_def)
    moreover have "0 < b / (1 / mu - 1)"
      using bpos den by simp
    ultimately show ?thesis
      using b root bpos by blast
  qed
  have only: "get_beta_params_from_mu_sigma root_scalar mu sigma (lo, hi)
        = Inr (r / (1 / mu - 1), r)"
    if sign: "?f lo * ?f hi < 0" and r: "min lo hi \<le> r" "r \<le> max lo hi" "?f r = 0" for r
  proof -
    from sign have "?f lo * ?f hi \<le> 0" by simp
    from bracketed [OF this] obtain b where
      b: "get_beta_params_from_mu_sigma root_scalar mu sigma (lo, hi)
          = Inr (b / (1 / mu - 1), b)"
        "?f b = 0" "min lo hi \<le> b" "b \<le> max lo hi"
      by blast
    from inner_f_root_unique [OF pos sign r b(3,4,2)] have "r = b" .
    with b(1) show ?thesis by simp
  qed
  have unbracketed: "get_beta_params_from_mu_sigma root_scalar mu sigma (lo, hi)
      = Inl Root_Not_Bracketed" if "0 < ?f lo * ?f hi"
    using rf fa fb that
    by (simp add: bracketed_root_finder_def get_beta_params_from_mu_sigma_def)
  from bracketed only unbracketed show ?thesis by blast
qed

theorem get_beta_params_root_in_bracket_witness:
  "get_beta_params_from_mu_sigma bisection (1 / 2) (10 / 39) (1 / 2, 27 / 10)
     = Inr (8 / 5, 8 / 5)
   \<and> (8 / 5) ^ 2 + 4 * (8 / 5) + 5 + 2 / (8 / 5) - 1 / (10 / 39) ^ 2 = (0::real)"
proof -
  let ?f = "\<lambda>x::real. x ^ 2 + 4 * x + 5 + 2 / x - 1 / (10 / 39) ^ 2"
  have root: "?f (8 / 5) = 0"
    by (simp add: power2_eq_square)
  have sign: "?f (1 / 2) * ?f (27 / 10) < 0"
    by (simp add: power2_eq_square)
  have "(0::real) < 1 / 2" "(1 / 2 :: real) < 1" "(0::real) < 10 / 39"
    "(0::real) < 1 / 2" "(0::real) < 27 / 10"
    by simp_all
  from get_beta_params_root_in_bracket [OF this bracketed_root_finder_example]
  have "\<forall>r. min (1 / 2) (27 / 10) \<le> r \<and> r \<le> max (1 / 2) (27 / 10) \<and> ?f r = 0 \<longrightarrow>
      get_beta_params_from_mu_sigma bisection (1 / 2) (10 / 39) (1 / 2, 27 / 10)
        = Inr (r / (1 / (1 / 2) - 1), r)"
    using sign by blast
  then have "get_beta_params_from_mu_sigma bisection (1 / 2) (10 / 39) (1 / 2, 27 / 10)
        = Inr (8 / 5 / (1 / (1 / 2) - 1), 8 / 5)"
    using root by (elim allE [of _ "8 / 5"]) simp
  with root show ?thesis by simp
qed

text \<open>
  C6, as the code has it. The solver checks nothing before it calls the root-finder.
  With a mean of 0 or 1 it returns no result: unless the root-finder has raised already,
  recovering \<open>a\<close> raises the division-by-zero error. With any other mean, inside the
  unit interval or not, and any sigma, negative ones included, a root \<open>b\<close> returned by
  the root-finder makes the solver return \<open>(b / (1 / mu - 1), b)\<close>.
\<close>

theorem get_beta_params_no_range_check:
  "(mu = 0 \<or> mu = 1 \<longrightarrow>
      (\<exists>e. get_beta_params_from_mu_sigma root_scalar mu sigma bracket = Inl e))
   \<and> (root_scalar (inner_f sigma) bracket = Inr b \<longrightarrow>
        get_beta_params_from_mu_sigma root_scalar mu sigma bracket
          = (if mu = 0 \<or> mu = 1 then Inl Zero_Division_Error
             else Inr (b / (1 / mu - 1), b)))"
  by (cases "root_scalar (inner_f sigma) bracket")
    (auto simp: get_beta_params_from_mu_sigma_def)

theorem get_beta_params_no_range_check_witness:
  "get_beta_params_from_mu_sigma bisection 1 (10 / 39) (1 / 2, 27 / 10) = Inl Zero_Division_Error
   \<and> get_beta_params_from_mu_sigma bisection 2 (- (10 / 39)) (1 / 2, 27 / 10)
       = Inr (- (16 / 5), 8 / 5)"
proof -
  have b: "bisection (inner_f (- (10 / 39))) (1 / 2, 27 / 10) = Inr (8 / 5)"
    by (simp add: inner_f_minus bisection_example)
  show ?thesis
    using get_beta_params_no_range_check
        [of 1 bisection "10 / 39" "(1 / 2, 27 / 10)" "8 / 5"]
      get_beta_params_no_range_check
        [of 2 bisection "- (10 / 39)" "(1 / 2, 27 / 10)" "8 / 5"]
    by (simp add: bisection_example b)
qed

text \<open>
  The claim C6 as the specification states it fails: a mean of 2 is outside the unit
  interval, and with a root-finder that meets the specification at this input the solver
  raises nothing and returns a pair whose first component is negative.
\<close>

theorem get_beta_params_range_counterexample:
  "bracketed_root_finder bisection (inner_f (10 / 39)) (1 / 2, 27 / 10)
   \<and> get_beta_params_from_mu_sigma bisection 2 (10 / 39) (1 / 2, 27 / 10)
       = Inr (- (16 / 5), 8 / 5)"
  by (simp add: bracketed_root_finder_example get_beta_params_from_mu_sigma_def
      bisection_example)

subsection \<open>Array values\<close>

lemma np_add_NaN_right [simp]: "np_add a NaN = NaN"
  by (cases a) simp_all

lemma np_sum_Nil [simp]: "np_sum [] = Fin 0"
  by (simp add: np_sum_def)

lemma np_sum_Cons [simp]: "np_sum (a # as) = np_add a (np_sum as)"
  by (simp add: np_sum_def)

lemma np_sum_Fin: "np_sum (map Fin rs) = Fin (sum_list rs)"
  by (induction rs) simp_all

lemma np_sum_NaN: "NaN \<in> set as \<Longrightarrow> np_sum as = NaN"
  by (induction as) auto

lemma sum_list_divide: "sum_list (map (\<lambda>a. f a / c) as) = sum_list (map f as) / (c::real)"
  by (induction as) (simp_all add: add_divide_distrib)

subsection \<open>The discrete grid\<close>

lemma sorted_unique: "sorted (unique xs)"
  by (simp add: unique_def)

lemma distinct_unique: "distinct (unique xs)"
  by (simp add: unique_def)

lemma set_unique: "set (unique xs) = set xs"
  by (simp add: unique_def)

lemma unique_Nil_iff: "unique xs = [] \<longleftrightarrow> xs = []"
  using set_unique [of xs] by (metis set_empty)

lemma unique_commute: "unique (p @ q) = unique (q @ p)"
  by (rule sorted_distinct_set_unique)
    (auto simp: sorted_unique distinct_unique set_unique)

subsection \<open>Counts and their differences\<close>

lemma length_diff: "length (diff cs) = length cs - 1"
  by (induction cs rule: diff.induct) simp_all

lemma sum_list_diff: "sum_list (c # diff (c # cs)) = last (c # cs)"
  by (induction cs arbitrary: c) simp_all

lemma nth_diff: "Suc i < length cs \<Longrightarrow> diff cs ! i = cs ! Suc i - cs ! i"
proof (induction cs arbitrary: i rule: diff.induct)
  case (1 a b cs)
  then show ?case by (cases i) simp_all
qed simp_all

lemma count_le_mono: "s \<le> t \<Longrightarrow> count_le p s \<le> count_le p t"
proof (induction p)
  case (Cons a p)
  then show ?case by (auto simp: count_le_def)
qed (simp add: count_le_def)

lemma count_le_all: "\<forall>s\<in>set p. s \<le> t \<Longrightarrow> count_le p t = int (length p)"
  by (simp add: count_le_def)

lemma pmf_counts_Cons:
  "pmf_counts p (t # ts) = Inr (count_le p t # diff (map (count_le p) (t # ts)))"
  by (simp add: pmf_counts_def)

lemma pmf_counts_nth:
  assumes "pmf_counts p x = Inr raw" and "i < length x"
  shows "length raw = length x"
    and "raw ! i = count_le p (x ! i) - (if i = 0 then 0 else count_le p (x ! (i - 1)))"
proof -
  from assms obtain t ts where x: "x = t # ts" by (cases x) auto
  with assms have raw: "raw = count_le p t # diff (map (count_le p) (t # ts))"
    by (simp add: pmf_counts_Cons)
  show "length raw = length x"
    by (simp add: raw x length_diff)
  show "raw ! i = count_le p (x ! i) - (if i = 0 then 0 else count_le p (x ! (i - 1)))"
  proof (cases i)
    case 0
    then show ?thesis by (simp add: raw x)
  next
    case (Suc j)
    with assms(2) x have j: "Suc j < length (map (count_le p) (t # ts))" by simp
    then have "map (count_le p) (t # ts) ! j = count_le p ((t # ts) ! j)"
      by (intro nth_map) simp
    moreover have "map (count_le p) (t # ts) ! Suc j = count_le p ((t # ts) ! Suc j)"
      using j by (intro nth_map) simp
    ultimately have "diff (map (count_le p) (t # ts)) ! j
        = count_le p ((t # ts) ! Suc j) - count_le p ((t # ts) ! j)"
      using nth_diff [OF j] by simp
    then show ?thesis
      using Suc by (simp add: raw x)
  qed
qed

lemma pmf_counts_total:
  assumes "pmf_counts p x = Inr raw" and "\<forall>s\<in>set p. s \<le> last x"
  shows "sum_list raw = int (length p)"
proof -
  from assms obtain t ts where x: "x = t # ts" by (cases x) (auto simp: pmf_counts_def)
  with assms have raw: "raw = count_le p t # diff (count_le p t # map (count_le p) ts)"
    by (simp add: pmf_counts_Cons)
  have "sum_list raw = last (map (count_le p) (t # ts))"
    unfolding raw using sum_list_diff [of "count_le p t" "map (count_le p) ts"] by simp
  also have "\<dots> = count_le p (last (t # ts))"
    by (rule last_map) simp
  also have "\<dots> = int (length p)"
    using assms(2) x by (intro count_le_all) simp
  finally show ?thesis .
qed

lemma pmf_counts_nonneg:
  assumes "pmf_counts p x = Inr raw" and "sorted x" and "m \<in> set raw"
  shows "0 \<le> m"
proof -
  from assms(3) obtain i where i: "i < length raw" "raw ! i = m"
    by (auto simp: in_set_conv_nth)
  from assms(1) have "x \<noteq> []" by (auto simp: pmf_counts_def)
  then have "0 < length x" by simp
  from pmf_counts_nth(1) [OF assms(1) this] i have ix: "i < length x" by simp
  note nth = pmf_counts_nth(2) [OF assms(1) ix]
  show ?thesis
  proof (cases i)
    case 0
    with nth i show ?thesis by (simp add: count_le_def)
  next
    case (Suc j)
    with ix assms(2) have "x ! j \<le> x ! i"
      by (simp add: sorted_nth_mono)
    from count_le_mono [OF this, of p] nth i Suc show ?thesis by simp
  qed
qed

lemma pmf_mass_vector:
  assumes raw: "pmf_counts p x = Inr raw" and x: "sorted x" "\<forall>s\<in>set p. s \<le> last x"
    and p: "p \<noteq> []"
  shows "pmf p x = Inr (map (\<lambda>m. Fin (real_of_int m / real (length p))) raw)"
    and "sum_list (map (\<lambda>m. real_of_int m / real (length p)) raw) = 1"
    and "\<forall>m\<in>set raw. 0 \<le> real_of_int m / real (length p)"
proof -
  have total: "sum_list raw = int (length p)"
    by (rule pmf_counts_total [OF raw x(2)])
  have len: "real (length p) \<noteq> 0"
    using p by simp
  show "pmf p x = Inr (map (\<lambda>m. Fin (real_of_int m / real (length p))) raw)"
    using len by (simp add: pmf_def raw total)
  have "sum_list (map real_of_int raw) = real_of_int (sum_list raw)"
    by (induction raw) simp_all
  then show "sum_list (map (\<lambda>m. real_of_int m / real (length p)) raw) = 1"
    using len by (simp add: sum_list_divide total)
  show "\<forall>m\<in>set raw. 0 \<le> real_of_int m / real (length p)"
    using pmf_counts_nonneg [OF raw x(1)] by simp
qed

lemma pmf_counts_grid:
  assumes "p \<noteq> [] \<or> q \<noteq> []"
  shows "\<exists>raw. pmf_counts s (discrete_grid p q) = Inr raw"
proof -
  from assms have "discrete_grid p q \<noteq> []"
    by (simp add: discrete_grid_def unique_Nil_iff)
  then show ?thesis
    by (cases "discrete_grid p q") (simp_all add: pmf_counts_Cons)
qed

lemma sorted_le_last: "s \<in> set xs \<Longrightarrow> sorted xs \<Longrightarrow> s \<le> last (xs::real list)"
  by (induction xs) auto

lemma discrete_grid_last:
  assumes "s \<in> set p \<union> set q"
  shows "s \<le> last (discrete_grid p q)"
proof -
  have "s \<in> set (discrete_grid p q)"
    using assms by (simp add: discrete_grid_def set_unique)
  moreover have "sorted (discrete_grid p q)"
    by (simp add: discrete_grid_def sorted_unique)
  ultimately show ?thesis
    by (rule sorted_le_last)
qed

subsection \<open>The kernel density\<close>

lemma underflow_nonneg: "0 \<le> v \<Longrightarrow> 0 \<le> underflow v"
  by (simp add: underflow_def)

lemma norm_pdf_nonneg: "0 \<le> norm_pdf xi t"
  unfolding norm_pdf_def
  by (intro underflow_nonneg divide_nonneg_nonneg) simp_all

lemma exp_minus_small:
  assumes "1075 \<le> (y::real)"
  shows "exp (- y) \<le> 1 / 2 ^ 1075"
proof -
  have "2 \<le> exp (1::real)"
    using exp_ge_add_one_self [of "1::real"] by simp
  then have half: "exp (- 1) \<le> (1 / 2 :: real)"
    by (simp add: exp_minus field_simps)
  have "exp (- y) \<le> exp (- (1075::real))"
    using assms by simp
  also have "exp (- (1075::real)) = exp (- 1) ^ 1075"
    using exp_of_nat_mult [of 1075 "- 1 :: real"] by simp
  also have "\<dots> \<le> (1 / 2) ^ 1075"
    using half by (intro power_mono) simp_all
  also have "\<dots> = 1 / 2 ^ 1075"
    by (simp add: power_one_over)
  finally show ?thesis .
qed

text \<open>At a distance of 47 or more from its centre the kernel is \<open>0.0\<close>.\<close>

lemma norm_pdf_far:
  assumes "47 \<le> \<bar>t - xi\<bar>"
  shows "norm_pdf xi t = 0"
proof -
  have "47 ^ 2 \<le> \<bar>t - xi\<bar> ^ 2"
    using assms by (intro power_mono) simp_all
  then have "1075 \<le> (t - xi) ^ 2 / 2"
    by simp
  from exp_minus_small [OF this] have "underflow (exp (- ((t - xi) ^ 2) / 2)) = 0"
    by (simp add: underflow_def)
  then show ?thesis
    by (simp add: norm_pdf_def underflow_def)
qed

text \<open>At its centre the kernel has not underflowed: it is \<open>1 / sqrt (2 pi)\<close>.\<close>

lemma sqrt_two_pi_less_8: "sqrt (2 * pi) < 8"
proof -
  have "2 * pi < 64"
    using pi_less_4 by simp
  then have "sqrt (2 * pi) < sqrt 64"
    by (simp only: real_sqrt_less_iff)
  then show ?thesis
    by simp
qed

lemma least_double_small: "(1::real) / 2 ^ 1075 \<le> 1 / 8"
proof -
  have "(2::real) ^ 3 \<le> 2 ^ 1075"
    by (rule power_increasing) simp_all
  then show ?thesis
    by (intro divide_left_mono) simp_all
qed

lemma underflow_one: "underflow 1 = 1"
proof -
  have "(1::real) / 2 ^ 1075 < 1"
    by (rule le_less_trans [OF least_double_small]) simp
  then have "\<not> \<bar>1::real\<bar> \<le> 1 / 2 ^ 1075"
    by (simp only: abs_one not_le)
  then show ?thesis
    unfolding underflow_def by (simp only: if_False)
qed

lemma underflow_kernel_top: "underflow (1 / sqrt (2 * pi)) = 1 / sqrt (2 * pi)"
proof -
  have "0 < sqrt (2 * pi)"
    by simp
  with sqrt_two_pi_less_8 have "1 / 8 < 1 / sqrt (2 * pi)"
    by (intro divide_strict_left_mono) simp_all
  with least_double_small have less: "1 / 2 ^ 1075 < 1 / sqrt (2 * pi)"
    by (rule le_less_trans)
  have "0 \<le> 1 / sqrt (2 * pi)"
    by simp
  then have "\<bar>1 / sqrt (2 * pi)\<bar> = 1 / sqrt (2 * pi)"
    by (rule abs_of_nonneg)
  with less have "\<not> \<bar>1 / sqrt (2 * pi)\<bar> \<le> 1 / 2 ^ 1075"
    by (simp only: not_le)
  then show ?thesis
    unfolding underflow_def by (simp only: if_False)
qed

lemma norm_pdf_centre: "norm_pdf xi xi = 1 / sqrt (2 * pi)"
proof -
  have "exp (- ((xi - xi) ^ 2) / 2) = (1::real)"
    by simp
  then show ?thesis
    unfolding norm_pdf_def by (simp only: underflow_one underflow_kernel_top)
qed

lemma foldl_add_arrays:
  "length acc = length x \<Longrightarrow>
     foldl (\<lambda>acc xi. map2 (+) acc (map (f xi) x)) acc p
       = map2 (\<lambda>a t. a + (\<Sum>xi\<leftarrow>p. f xi t)) acc (x::real list)"
proof (induction p arbitrary: acc)
  case Nil
  then show ?case
    by (simp add: list_eq_iff_nth_eq)
next
  case (Cons a p)
  have "length (map2 (+) acc (map (f a) x)) = length x"
    using Cons.prems by simp
  from Cons.IH [OF this] Cons.prems show ?case
    by (simp add: list_eq_iff_nth_eq add.assoc)
qed

lemma density_eq:
  "foldl (\<lambda>acc xi. map2 (+) acc (map (norm_pdf xi) x)) (replicate (length x) 0) p
     = map (\<lambda>t. \<Sum>xi\<leftarrow>p. norm_pdf xi t) x"
  by (subst foldl_add_arrays) (simp_all add: list_eq_iff_nth_eq)

lemma density_nonneg: "0 \<le> (\<Sum>xi\<leftarrow>p. norm_pdf xi t)"
  by (rule sum_list_nonneg) (auto simp: norm_pdf_nonneg)

lemma sum_list_pos_member:
  "\<forall>a\<in>set as. 0 \<le> a \<Longrightarrow> b \<in> set as \<Longrightarrow> 0 < b \<Longrightarrow> 0 < sum_list (as::real list)"
proof (induction as)
  case Nil
  then show ?case by simp
next
  case (Cons a as)
  show ?case
  proof (cases "b = a")
    case True
    have "0 \<le> sum_list as"
      using Cons.prems(1) by (intro sum_list_nonneg) simp
    with True Cons.prems(3) show ?thesis
      by (simp add: add_pos_nonneg)
  next
    case False
    with Cons have "0 < sum_list as" by simp
    moreover have "0 \<le> a" using Cons.prems(1) by simp
    ultimately show ?thesis
      by (simp add: add_nonneg_pos)
  qed
qed

lemma norm_pdf_centre_pos: "0 < norm_pdf xi xi"
  unfolding norm_pdf_centre by simp

text \<open>The total of a collection is positive as soon as one of its samples is a grid point.\<close>

lemma density_total_pos:
  assumes "xi \<in> set p" and "xi \<in> set x"
  shows "0 < sum_list (map (\<lambda>t. \<Sum>xi\<leftarrow>p. norm_pdf xi t) x)"
proof -
  have "0 < (\<Sum>xi'\<leftarrow>p. norm_pdf xi' xi)"
  proof (rule sum_list_pos_member)
    show "\<forall>a\<in>set (map (\<lambda>xi'. norm_pdf xi' xi) p). 0 \<le> a"
      by (auto simp: norm_pdf_nonneg)
    show "norm_pdf xi xi \<in> set (map (\<lambda>xi'. norm_pdf xi' xi) p)"
      using assms(1) by auto
    show "0 < norm_pdf xi xi"
      by (rule norm_pdf_centre_pos)
  qed
  then show ?thesis
  proof (rule sum_list_pos_member [rotated 2])
    show "\<forall>a\<in>set (map (\<lambda>t. \<Sum>xi\<leftarrow>p. norm_pdf xi t) x). 0 \<le> a"
      by (auto simp: density_nonneg)
    show "(\<Sum>xi'\<leftarrow>p. norm_pdf xi' xi) \<in> set (map (\<lambda>t. \<Sum>xi\<leftarrow>p. norm_pdf xi t) x)"
      using assms(2) by auto
  qed
qed

lemma estimate_pdf_eq:
  assumes "p \<noteq> []"
  shows "estimate_pdf p x
      = Inr (map (\<lambda>t. np_true_divide (Fin (\<Sum>xi\<leftarrow>p. norm_pdf xi t))
                (Fin (sum_list (map (\<lambda>t. \<Sum>xi\<leftarrow>p. norm_pdf xi t) x)))) x)"
  using assms by (simp add: estimate_pdf_def density_eq Let_def comp_def)

lemma estimate_pdf_length: "estimate_pdf p x = Inr P \<Longrightarrow> length P = length x"
  by (cases "p = []") (auto simp: estimate_pdf_def density_eq Let_def)

text \<open>With a positive total the estimator divides each density by the total.\<close>

lemma estimate_pdf_density:
  assumes p: "p \<noteq> []" and pos: "0 < sum_list (map (\<lambda>t. \<Sum>xi\<leftarrow>p. norm_pdf xi t) x)"
  shows "estimate_pdf p x
      = Inr (map (\<lambda>t. Fin ((\<Sum>xi\<leftarrow>p. norm_pdf xi t)
              / sum_list (map (\<lambda>t. \<Sum>xi\<leftarrow>p. norm_pdf xi t) x))) x)"
  using pos by (simp add: estimate_pdf_eq [OF p])

lemma sum_list_zeros: "\<forall>a\<in>set as. f a = 0 \<Longrightarrow> sum_list (map f as) = (0::real)"
  by (induction as) auto

text \<open>
  When every sample is at a distance of 47 or more from every grid point, every kernel
  is \<open>0.0\<close>, the total is \<open>0.0\<close> and every entry of the result is \<open>0 / 0\<close>.
\<close>

lemma estimate_pdf_underflow:
  assumes p: "p \<noteq> []" and far: "\<forall>t\<in>set x. \<forall>xi\<in>set p. 47 \<le> \<bar>t - xi\<bar>"
  shows "estimate_pdf p x = Inr (replicate (length x) NaN)"
proof -
  have zero: "(\<Sum>xi\<leftarrow>p. norm_pdf xi t) = 0" if "t \<in> set x" for t
    using far that by (intro sum_list_zeros) (auto simp: norm_pdf_far)
  then have dens: "map (\<lambda>t. \<Sum>xi\<leftarrow>p. norm_pdf xi t) x = map (\<lambda>t. 0) x"
    by (intro map_cong) auto
  have "map (\<lambda>t. np_true_divide (Fin (\<Sum>xi\<leftarrow>p. norm_pdf xi t))
            (Fin (sum_list (map (\<lambda>t. \<Sum>xi\<leftarrow>p. norm_pdf xi t) x)))) x
      = map (\<lambda>t. NaN) x"
    unfolding dens using zero by (intro map_cong) auto
  then show ?thesis
    by (simp add: estimate_pdf_eq [OF p] map_replicate_const)
qed

lemma length_linspace: "length (linspace a b n) = n"
  by (simp add: linspace_def)

lemma nth_linspace: "i < n \<Longrightarrow> linspace a b n ! i = a + real i * ((b - a) / real (n - 1))"
  by (simp add: linspace_def)

lemma continuous_grid_nonempty:
  "p \<noteq> [] \<Longrightarrow> q \<noteq> [] \<Longrightarrow>
     continuous_grid p q
       = Inr (linspace (min (Min (set p)) (Min (set q))) (max (Max (set p)) (Max (set q))) 100)"
  by (simp add: continuous_grid_def amin_def amax_def)

lemma pmf_counts_length: "pmf_counts p x = Inr raw \<Longrightarrow> length raw = length x"
  by (cases x) (auto simp: pmf_counts_def length_diff)

subsection \<open>Both estimators give probability vectors\<close>

lemma build_pdfs_discrete:
  assumes p: "p \<noteq> []" and q: "q \<noteq> []"
  shows "\<exists>rp rq. pmf_counts p (discrete_grid p q) = Inr rp
      \<and> pmf_counts q (discrete_grid p q) = Inr rq
      \<and> pmf p (discrete_grid p q) = Inr (map (\<lambda>m. Fin (real_of_int m / real (length p))) rp)
      \<and> pmf q (discrete_grid p q) = Inr (map (\<lambda>m. Fin (real_of_int m / real (length q))) rq)
      \<and> build_pdfs p q True
          = Inr (map (\<lambda>m. Fin (real_of_int m / real (length p))) rp,
                 map (\<lambda>m. Fin (real_of_int m / real (length q))) rq)"
proof -
  let ?x = "discrete_grid p q"
  obtain rp where rp: "pmf_counts p ?x = Inr rp"
    using pmf_counts_grid [of p q p] p by blast
  obtain rq where rq: "pmf_counts q ?x = Inr rq"
    using pmf_counts_grid [of p q q] p by blast
  have s: "sorted ?x"
    by (simp add: discrete_grid_def sorted_unique)
  have lp: "\<forall>s\<in>set p. s \<le> last ?x" and lq: "\<forall>s\<in>set q. s \<le> last ?x"
    by (simp_all add: discrete_grid_last)
  note P = pmf_mass_vector(1) [OF rp s lp p]
  note Q = pmf_mass_vector(1) [OF rq s lq q]
  have "build_pdfs p q True
          = Inr (map (\<lambda>m. Fin (real_of_int m / real (length p))) rp,
                 map (\<lambda>m. Fin (real_of_int m / real (length q))) rq)"
    by (simp add: build_pdfs_def P Q)
  with rp rq P Q show ?thesis by blast
qed

text \<open>
  The continuous estimator, when neither total has underflowed to \<open>0.0\<close>.
\<close>

lemma build_pdfs_continuous:
  assumes p: "p \<noteq> []" and q: "q \<noteq> []"
    and x: "x = linspace (min (Min (set p)) (Min (set q))) (max (Max (set p)) (Max (set q))) 100"
    and pos: "0 < sum_list (map (\<lambda>t. \<Sum>xi\<leftarrow>p. norm_pdf xi t) x)"
      "0 < sum_list (map (\<lambda>t. \<Sum>xi\<leftarrow>q. norm_pdf xi t) x)"
  shows "build_pdfs p q False
      = Inr (map (\<lambda>t. Fin ((\<Sum>xi\<leftarrow>p. norm_pdf xi t)
                / sum_list (map (\<lambda>t. \<Sum>xi\<leftarrow>p. norm_pdf xi t) x))) x,
             map (\<lambda>t. Fin ((\<Sum>xi\<leftarrow>q. norm_pdf xi t)
                / sum_list (map (\<lambda>t. \<Sum>xi\<leftarrow>q. norm_pdf xi t) x))) x)"
proof -
  have g: "continuous_grid p q = Inr x"
    by (simp add: continuous_grid_nonempty [OF p q] x)
  show ?thesis
    by (simp add: build_pdfs_def g estimate_pdf_density [OF p pos(1)]
        estimate_pdf_density [OF q pos(2)])
qed

lemma normalized_density:
  assumes pos: "0 < sum_list (map (\<lambda>t. \<Sum>xi\<leftarrow>p. norm_pdf xi t) x)"
  defines "P \<equiv> map (\<lambda>t. (\<Sum>xi\<leftarrow>p. norm_pdf xi t)
                / sum_list (map (\<lambda>t. \<Sum>xi\<leftarrow>p. norm_pdf xi t) x)) x"
  shows "sum_list P = 1" and "\<forall>v\<in>set P. 0 \<le> v"
proof -
  show "sum_list P = 1"
    unfolding P_def using pos by (simp add: sum_list_divide)
  show "\<forall>v\<in>set P. 0 \<le> v"
    unfolding P_def using pos density_nonneg [where p = p]
    by (auto intro!: divide_nonneg_pos)
qed

lemma map_Fin_comp: "map (\<lambda>a. Fin (f a)) as = map Fin (map f as)"
  by simp

text \<open>
  Both estimators give two vectors of real numbers of the same length, with no negative
  entry and of sum 1: the discrete one always, the continuous one when neither total has
  underflowed.
\<close>

lemma build_pdfs_prob:
  assumes p: "p \<noteq> []" and q: "q \<noteq> []"
    and pos: "discrete \<or>
      (0 < sum_list (map (\<lambda>t. \<Sum>xi\<leftarrow>p. norm_pdf xi t)
            (linspace (min (Min (set p)) (Min (set q))) (max (Max (set p)) (Max (set q))) 100))
       \<and> 0 < sum_list (map (\<lambda>t. \<Sum>xi\<leftarrow>q. norm_pdf xi t)
            (linspace (min (Min (set p)) (Min (set q))) (max (Max (set p)) (Max (set q))) 100)))"
  shows "\<exists>P Q. build_pdfs p q discrete = Inr (map Fin P, map Fin Q)
      \<and> length P = length Q
      \<and> (\<forall>v\<in>set P. 0 \<le> v) \<and> sum_list P = 1
      \<and> (\<forall>v\<in>set Q. 0 \<le> v) \<and> sum_list Q = 1"
proof (cases discrete)
  case True
  let ?x = "discrete_grid p q"
  from build_pdfs_discrete [OF p q] obtain rp rq where
    rp: "pmf_counts p ?x = Inr rp" and rq: "pmf_counts q ?x = Inr rq"
    and b: "build_pdfs p q True
          = Inr (map (\<lambda>m. Fin (real_of_int m / real (length p))) rp,
                 map (\<lambda>m. Fin (real_of_int m / real (length q))) rq)"
    by blast
  have s: "sorted ?x"
    by (simp add: discrete_grid_def sorted_unique)
  have lp: "\<forall>s\<in>set p. s \<le> last ?x" and lq: "\<forall>s\<in>set q. s \<le> last ?x"
    by (simp_all add: discrete_grid_last)
  let ?P = "map (\<lambda>m. real_of_int m / real (length p)) rp"
  let ?Q = "map (\<lambda>m. real_of_int m / real (length q)) rq"
  have "build_pdfs p q discrete = Inr (map Fin ?P, map Fin ?Q)"
    using b True by (simp add: comp_def)
  moreover have "length ?P = length ?Q"
    using pmf_counts_length [OF rp] pmf_counts_length [OF rq] by simp
  moreover have "sum_list ?P = 1" "sum_list ?Q = 1"
    using pmf_mass_vector(2) [OF rp s lp p] pmf_mass_vector(2) [OF rq s lq q] by simp_all
  moreover have "\<forall>v\<in>set ?P. 0 \<le> v" "\<forall>v\<in>set ?Q. 0 \<le> v"
    using pmf_mass_vector(3) [OF rp s lp p] pmf_mass_vector(3) [OF rq s lq q] by simp_all
  ultimately show ?thesis by blast
next
  case False
  define x where
    "x = linspace (min (Min (set p)) (Min (set q))) (max (Max (set p)) (Max (set q))) 100"
  from pos False have posp: "0 < sum_list (map (\<lambda>t. \<Sum>xi\<leftarrow>p. norm_pdf xi t) x)"
    and posq: "0 < sum_list (map (\<lambda>t. \<Sum>xi\<leftarrow>q. norm_pdf xi t) x)"
    by (simp_all add: x_def)
  let ?P = "map (\<lambda>t. (\<Sum>xi\<leftarrow>p. norm_pdf xi t)
                / sum_list (map (\<lambda>t. \<Sum>xi\<leftarrow>p. norm_pdf xi t) x)) x"
  let ?Q = "map (\<lambda>t. (\<Sum>xi\<leftarrow>q. norm_pdf xi t)
                / sum_list (map (\<lambda>t. \<Sum>xi\<leftarrow>q. norm_pdf xi t) x)) x"
  have "build_pdfs p q discrete = Inr (map Fin ?P, map Fin ?Q)"
    using build_pdfs_continuous [OF p q x_def posp posq] False by (simp add: comp_def)
  moreover have "length ?P = length ?Q" by simp
  moreover note normalized_density [OF posp] normalized_density [OF posq]
  ultimately show ?thesis by blast
qed

subsection \<open>The Hellinger distance of two probability vectors\<close>

lemma hellinger_terms:
  "\<forall>v\<in>set P. 0 \<le> v \<Longrightarrow> \<forall>v\<in>set Q. 0 \<le> v \<Longrightarrow>
     map np_square (map2 np_subtract (map np_sqrt (map Fin P)) (map np_sqrt (map Fin Q)))
       = map Fin (map (\<lambda>(a, b). (sqrt a - sqrt b) ^ 2) (zip P Q))"
  by (induction P Q rule: list_induct2') (simp_all add: np_subtract_def)

lemma sum_squares_nonneg: "0 \<le> (\<Sum>(a, b)\<leftarrow>zip P Q. (sqrt a - sqrt b) ^ 2)"
  by (rule sum_list_nonneg) auto

lemma hellinger_Fin:
  assumes "\<forall>v\<in>set P. 0 \<le> v" and "\<forall>v\<in>set Q. 0 \<le> v"
  shows "hellinger (map Fin P) (map Fin Q)
     = Fin (sqrt (\<Sum>(a, b)\<leftarrow>zip P Q. (sqrt a - sqrt b) ^ 2) / sqrt 2)"
  unfolding hellinger_def hellinger_terms [OF assms] np_sum_Fin
  using sum_squares_nonneg [of P Q] by (simp add: not_less)

lemma sum_squares_expand:
  "length P = length Q \<Longrightarrow> \<forall>v\<in>set P. 0 \<le> v \<Longrightarrow> \<forall>v\<in>set Q. 0 \<le> v \<Longrightarrow>
     (\<Sum>(a, b)\<leftarrow>zip P Q. (sqrt a - sqrt b) ^ 2)
       = sum_list P + sum_list Q - 2 * (\<Sum>(a, b)\<leftarrow>zip P Q. sqrt a * sqrt b)"
  by (induction P Q rule: list_induct2) (simp_all add: power2_diff algebra_simps)

lemma sum_squares_le_2:
  assumes "length P = length Q" and "\<forall>v\<in>set P. 0 \<le> v" and "\<forall>v\<in>set Q. 0 \<le> v"
    and "sum_list P = 1" and "sum_list Q = 1"
  shows "(\<Sum>(a, b)\<leftarrow>zip P Q. (sqrt a - sqrt b) ^ 2) \<le> 2"
proof -
  have "0 \<le> (\<Sum>(a, b)\<leftarrow>zip P Q. sqrt a * sqrt b)"
    using assms(2,3) by (intro sum_list_nonneg)
      (auto dest: set_zip_leftD set_zip_rightD intro!: mult_nonneg_nonneg)
  then show ?thesis
    using sum_squares_expand [OF assms(1-3)] assms(4,5) by simp
qed

lemma sum_squares_zero_iff:
  assumes "length P = length Q" and "\<forall>v\<in>set P. 0 \<le> v" and "\<forall>v\<in>set Q. 0 \<le> v"
  shows "(\<Sum>(a, b)\<leftarrow>zip P Q. (sqrt a - sqrt b) ^ 2) = 0 \<longleftrightarrow> P = Q"
  using assms by (induction P Q rule: list_induct2)
    (simp_all add: add_nonneg_eq_0_iff sum_squares_nonneg)

lemma hellinger_value_bounds:
  assumes "length P = length Q" and "\<forall>v\<in>set P. 0 \<le> v" and "\<forall>v\<in>set Q. 0 \<le> v"
    and "sum_list P = 1" and "sum_list Q = 1"
  defines "h \<equiv> sqrt (\<Sum>(a, b)\<leftarrow>zip P Q. (sqrt a - sqrt b) ^ 2) / sqrt 2"
  shows "0 \<le> h" and "h \<le> 1" and "h = 0 \<longleftrightarrow> P = Q"
proof -
  show "0 \<le> h"
    unfolding h_def using sum_squares_nonneg [of P Q] by simp
  have "sqrt (\<Sum>(a, b)\<leftarrow>zip P Q. (sqrt a - sqrt b) ^ 2) \<le> sqrt 2"
    using sum_squares_le_2 [OF assms(1-5)] by simp
  then show "h \<le> 1"
    unfolding h_def by (simp add: field_simps)
  show "h = 0 \<longleftrightarrow> P = Q"
    unfolding h_def using sum_squares_zero_iff [OF assms(1-3)] by simp
qed

lemma distance_Hellinger:
  "build_pdfs p q discrete = Inr (P, Q) \<Longrightarrow>
     distance_pior_posterior p q ''Hellinger'' discrete = Inr (hellinger P Q)"
  by (simp add: distance_pior_posterior_def)

text \<open>
  For two non-empty collections, with the discrete estimator, or with the continuous one
  when neither total has underflowed, the method \<^verbatim>\<open>"Hellinger"\<close> returns the Euclidean
  norm of the entrywise difference of the square roots of the two vectors, divided by
  \<open>sqrt 2\<close>. That number lies between 0 and 1, and it is 0 exactly when the vectors are
  equal.
\<close>

lemma hellinger_unit_interval:
  assumes "p \<noteq> []" and "q \<noteq> []"
    and "discrete \<or>
      (0 < sum_list (map (\<lambda>t. \<Sum>xi\<leftarrow>p. norm_pdf xi t)
            (linspace (min (Min (set p)) (Min (set q))) (max (Max (set p)) (Max (set q))) 100))
       \<and> 0 < sum_list (map (\<lambda>t. \<Sum>xi\<leftarrow>q. norm_pdf xi t)
            (linspace (min (Min (set p)) (Min (set q))) (max (Max (set p)) (Max (set q))) 100)))"
  shows "\<exists>P Q. build_pdfs p q discrete = Inr (map Fin P, map Fin Q)
      \<and> length P = length Q
      \<and> distance_pior_posterior p q ''Hellinger'' discrete
          = Inr (Fin (sqrt (\<Sum>(a, b)\<leftarrow>zip P Q. (sqrt a - sqrt b) ^ 2) / sqrt 2))
      \<and> 0 \<le> sqrt (\<Sum>(a, b)\<leftarrow>zip P Q. (sqrt a - sqrt b) ^ 2) / sqrt 2
      \<and> sqrt (\<Sum>(a, b)\<leftarrow>zip P Q. (sqrt a - sqrt b) ^ 2) / sqrt 2 \<le> 1
      \<and> (sqrt (\<Sum>(a, b)\<leftarrow>zip P Q. (sqrt a - sqrt b) ^ 2) / sqrt 2 = 0 \<longleftrightarrow> P = Q)"
proof -
  from build_pdfs_prob [OF assms] obtain P Q where
    b: "build_pdfs p q discrete = Inr (map Fin P, map Fin Q)"
    and len: "length P = length Q"
    and P: "\<forall>v\<in>set P. 0 \<le> v" "sum_list P = 1"
    and Q: "\<forall>v\<in>set Q. 0 \<le> v" "sum_list Q = 1"
    by blast
  have "distance_pior_posterior p q ''Hellinger'' discrete
      = Inr (Fin (sqrt (\<Sum>(a, b)\<leftarrow>zip P Q. (sqrt a - sqrt b) ^ 2) / sqrt 2))"
    by (simp add: distance_Hellinger [OF b] hellinger_Fin [OF P(1) Q(1)])
  with b len hellinger_value_bounds [OF len P(1) Q(1) P(2) Q(2)]
  show ?thesis by blast
qed

lemma hellinger_discrete_example:
  "distance_pior_posterior [0] [1] ''Hellinger'' True = Inr (Fin 1)"
proof -
  have b: "build_pdfs [0] [1] True = Inr ([Fin 1, Fin 0], [Fin 0, Fin 1])"
    by (simp add: build_pdfs_def discrete_grid_def unique_def pmf_def pmf_counts_def
        count_le_def)
  show ?thesis
    by (simp add: distance_Hellinger [OF b] hellinger_def np_subtract_def)
qed

subsection \<open>The discrete mass estimator\<close>

lemma count_le_card: "count_le p t = int (card {j. j < length p \<and> p ! j \<le> t})"
  by (simp add: count_le_def length_filter_conv_card)

text \<open>
  C1. For two non-empty collections, the grid of the discrete estimator is sorted, has no
  repeated value and holds exactly the values of both collections. For each of the two
  collections the estimator's vector before the division holds at index \<open>i\<close> the number
  of samples that are at most grid point \<open>i\<close>, minus the number of samples that are at
  most grid point \<open>i - 1\<close> (at index 0 nothing is subtracted); its total is not zero, so
  the division divides by a nonzero number, also when all samples are equal; the result
  is that vector divided by its total, sums to 1 and has no negative entry. These two
  results are the vectors the distance function builds when the flag is set.
\<close>

theorem discrete_mass_estimator:
  assumes "p \<noteq> []" and "q \<noteq> []" and "s = p \<or> s = q"
  shows "discrete_grid p q = unique (p @ q)
    \<and> sorted (discrete_grid p q) \<and> distinct (discrete_grid p q)
    \<and> set (discrete_grid p q) = set p \<union> set q
    \<and> (\<exists>raw. pmf_counts s (discrete_grid p q) = Inr raw
          \<and> length raw = length (discrete_grid p q)
          \<and> (\<forall>i<length (discrete_grid p q).
                raw ! i = int (card {j. j < length s \<and> s ! j \<le> discrete_grid p q ! i})
                  - (if i = 0 then 0
                     else int (card {j. j < length s \<and> s ! j \<le> discrete_grid p q ! (i - 1)})))
          \<and> sum_list raw \<noteq> 0
          \<and> pmf s (discrete_grid p q)
              = Inr (map (\<lambda>m. Fin (real_of_int m / real_of_int (sum_list raw))) raw)
          \<and> np_sum (map (\<lambda>m. Fin (real_of_int m / real_of_int (sum_list raw))) raw) = Fin 1
          \<and> sum_list (map (\<lambda>m. real_of_int m / real_of_int (sum_list raw)) raw) = 1
          \<and> (\<forall>m\<in>set raw. 0 \<le> real_of_int m / real_of_int (sum_list raw)))
    \<and> (\<exists>P Q. build_pdfs p q True = Inr (P, Q)
          \<and> pmf p (discrete_grid p q) = Inr P \<and> pmf q (discrete_grid p q) = Inr Q)"
proof -
  let ?x = "discrete_grid p q"
  have s: "s \<noteq> []" and sub: "set s \<subseteq> set p \<union> set q"
    using assms by auto
  have grid: "?x = unique (p @ q)" "sorted ?x" "distinct ?x" "set ?x = set p \<union> set q"
    by (simp_all add: discrete_grid_def sorted_unique distinct_unique set_unique)
  obtain raw where raw: "pmf_counts s ?x = Inr raw"
    using pmf_counts_grid [of p q s] assms(1) by blast
  have last: "\<forall>t\<in>set s. t \<le> last ?x"
    using sub by (auto intro: discrete_grid_last)
  have total: "sum_list raw = int (length s)"
    by (rule pmf_counts_total [OF raw last])
  then have total': "real_of_int (sum_list raw) = real (length s)"
    by simp
  have nz: "sum_list raw \<noteq> 0"
    using total s by simp
  have nth: "\<forall>i<length ?x.
      raw ! i = int (card {j. j < length s \<and> s ! j \<le> ?x ! i})
        - (if i = 0 then 0 else int (card {j. j < length s \<and> s ! j \<le> ?x ! (i - 1)}))"
    using pmf_counts_nth(2) [OF raw] by (simp add: count_le_card)
  have sum1: "np_sum (map (\<lambda>m. Fin (real_of_int m / real_of_int (sum_list raw))) raw) = Fin 1"
    unfolding total' map_Fin_comp [of "\<lambda>m. real_of_int m / real (length s)"] np_sum_Fin
    using pmf_mass_vector(2) [OF raw grid(2) last s] by simp
  have sum1': "sum_list (map (\<lambda>m. real_of_int m / real_of_int (sum_list raw)) raw) = 1"
    unfolding total' by (rule pmf_mass_vector(2) [OF raw grid(2) last s])
  have vec: "pmf s ?x = Inr (map (\<lambda>m. Fin (real_of_int m / real_of_int (sum_list raw))) raw)"
    unfolding total' by (rule pmf_mass_vector(1) [OF raw grid(2) last s])
  have nonneg: "\<forall>m\<in>set raw. 0 \<le> real_of_int m / real_of_int (sum_list raw)"
    unfolding total' by (rule pmf_mass_vector(3) [OF raw grid(2) last s])
  have built: "\<exists>P Q. build_pdfs p q True = Inr (P, Q) \<and> pmf p ?x = Inr P \<and> pmf q ?x = Inr Q"
    using build_pdfs_discrete [OF assms(1,2)] by blast
  from grid raw pmf_counts_length [OF raw] nth nz vec sum1 sum1' nonneg built
  show ?thesis by blast
qed

theorem discrete_mass_estimator_witness:
  "discrete_grid [0, 1, 1] [2] = [0, 1, 2]
   \<and> pmf [0, 1, 1] (discrete_grid [0, 1, 1] [2]) = Inr [Fin (1 / 3), Fin (2 / 3), Fin 0]
   \<and> pmf [2] (discrete_grid [0, 1, 1] [2]) = Inr [Fin 0, Fin 0, Fin 1]
   \<and> (\<exists>raw. pmf_counts [0, 1, 1] (discrete_grid [0, 1, 1] [2]) = Inr raw
         \<and> raw ! 1 = int (card {j. j < length [0, 1, 1::real] \<and> [0, 1, 1] ! j \<le> (1::real)})
             - int (card {j. j < length [0, 1, 1::real] \<and> [0, 1, 1] ! j \<le> (0::real)})
         \<and> sum_list raw \<noteq> 0)
   \<and> (\<exists>raw. pmf_counts [2] (discrete_grid [0, 1, 1] [2]) = Inr raw \<and> sum_list raw \<noteq> 0)"
proof -
  have g: "discrete_grid [0, 1, 1] [2] = [0, 1, 2]"
    by (simp add: discrete_grid_def unique_def)
  have ne: "[0, 1, 1::real] \<noteq> []" "[2::real] \<noteq> []"
    by simp_all
  have "\<exists>raw. pmf_counts [0, 1, 1] (discrete_grid [0, 1, 1] [2]) = Inr raw
      \<and> (\<forall>i<length (discrete_grid [0, 1, 1] [2]).
            raw ! i = int (card {j. j < length [0, 1, 1::real]
                              \<and> [0, 1, 1] ! j \<le> discrete_grid [0, 1, 1] [2] ! i})
              - (if i = 0 then 0
                 else int (card {j. j < length [0, 1, 1::real]
                              \<and> [0, 1, 1] ! j \<le> discrete_grid [0, 1, 1] [2] ! (i - 1)})))
      \<and> sum_list raw \<noteq> 0"
    using discrete_mass_estimator [OF ne, of "[0, 1, 1]"] by blast
  then obtain raw where raw: "pmf_counts [0, 1, 1] (discrete_grid [0, 1, 1] [2]) = Inr raw"
    "\<forall>i<length (discrete_grid [0, 1, 1] [2]).
            raw ! i = int (card {j. j < length [0, 1, 1::real]
                              \<and> [0, 1, 1] ! j \<le> discrete_grid [0, 1, 1] [2] ! i})
              - (if i = 0 then 0
                 else int (card {j. j < length [0, 1, 1::real]
                              \<and> [0, 1, 1] ! j \<le> discrete_grid [0, 1, 1] [2] ! (i - 1)}))"
    "sum_list raw \<noteq> 0"
    by blast
  from raw(2) have "raw ! 1
      = int (card {j. j < length [0, 1, 1::real] \<and> [0, 1, 1] ! j \<le> (1::real)})
        - int (card {j. j < length [0, 1, 1::real] \<and> [0, 1, 1] ! j \<le> (0::real)})"
    unfolding g by (elim allE [of _ 1]) simp
  with raw have first: "\<exists>raw. pmf_counts [0, 1, 1] (discrete_grid [0, 1, 1] [2]) = Inr raw
         \<and> raw ! 1 = int (card {j. j < length [0, 1, 1::real] \<and> [0, 1, 1] ! j \<le> (1::real)})
             - int (card {j. j < length [0, 1, 1::real] \<and> [0, 1, 1] ! j \<le> (0::real)})
         \<and> sum_list raw \<noteq> 0"
    by blast
  have second: "\<exists>raw. pmf_counts [2] (discrete_grid [0, 1, 1] [2]) = Inr raw \<and> sum_list raw \<noteq> 0"
    using discrete_mass_estimator [OF ne, of "[2]"] by blast
  have "pmf [0, 1, 1] [0, 1, 2] = Inr [Fin (1 / 3), Fin (2 / 3), Fin 0]"
    by (simp add: pmf_def pmf_counts_def count_le_def)
  moreover have "pmf [2] [0, 1, 2] = Inr [Fin 0, Fin 0, Fin 1]"
    by (simp add: pmf_def pmf_counts_def count_le_def)
  ultimately show ?thesis
    using g first second by simp
qed

subsection \<open>The continuous density estimator\<close>

text \<open>
  For two non-empty collections, the grid of the continuous estimator has exactly 100
  points, equally spaced from the smallest to the largest value of both collections.
\<close>

lemma continuous_grid_points:
  assumes "p \<noteq> []" and "q \<noteq> []"
  shows "\<exists>x. continuous_grid p q = Inr x \<and> length x = 100
      \<and> (\<forall>i<100. x ! i = min (Min (set p)) (Min (set q))
            + real i * ((max (Max (set p)) (Max (set q)) - min (Min (set p)) (Min (set q))) / 99))
      \<and> x ! 0 = min (Min (set p)) (Min (set q))
      \<and> x ! 99 = max (Max (set p)) (Max (set q))"
proof -
  let ?lo = "min (Min (set p)) (Min (set q))" and ?hi = "max (Max (set p)) (Max (set q))"
  define x where "x = linspace ?lo ?hi 100"
  have len: "length x = 100"
    by (simp add: x_def length_linspace)
  have g: "continuous_grid p q = Inr x"
    by (simp add: continuous_grid_nonempty [OF assms] x_def)
  have nth: "\<forall>i<100. x ! i = ?lo + real i * ((?hi - ?lo) / 99)"
    by (simp add: x_def nth_linspace)
  have ends: "x ! 0 = ?lo" "x ! 99 = ?hi"
    by (simp_all add: x_def nth_linspace diff_divide_distrib)
  from g len nth ends show ?thesis by blast
qed

text \<open>
  The density of a collection holds, at each grid point, the sum over the samples of the
  kernel centred at the sample. When its total has not underflowed to \<open>0.0\<close>, the
  result is that density divided by its total, has as many entries as the grid, sums to 1
  and has no negative entry.
\<close>

lemma continuous_density_normalized:
  assumes s: "s \<noteq> []"
    and dens: "dens = map (\<lambda>t. \<Sum>xi\<leftarrow>s. norm_pdf xi t) x"
    and pos: "0 < sum_list dens"
  shows "estimate_pdf s x = Inr (map (\<lambda>d. Fin (d / sum_list dens)) dens)
      \<and> length (map (\<lambda>d. Fin (d / sum_list dens)) dens) = length x
      \<and> np_sum (map (\<lambda>d. Fin (d / sum_list dens)) dens) = Fin 1
      \<and> (\<forall>d\<in>set dens. 0 \<le> d / sum_list dens)"
proof -
  have est: "estimate_pdf s x = Inr (map (\<lambda>d. Fin (d / sum_list dens)) dens)"
    using pos unfolding dens by (simp add: estimate_pdf_density [OF s] comp_def)
  have sum1: "np_sum (map (\<lambda>d. Fin (d / sum_list dens)) dens) = Fin 1"
    unfolding map_Fin_comp [of "\<lambda>d. d / sum_list dens"] np_sum_Fin
    using pos by (simp add: sum_list_divide)
  have nonneg: "\<forall>d\<in>set dens. 0 \<le> d / sum_list dens"
    using pos density_nonneg [where p = s] by (auto simp: dens intro!: divide_nonneg_pos)
  from est sum1 nonneg show ?thesis by (simp add: dens)
qed

subsection \<open>Exchanging the two collections\<close>

lemma discrete_grid_commute: "discrete_grid p q = discrete_grid q p"
  by (simp add: discrete_grid_def unique_commute)

lemma continuous_grid_commute: "continuous_grid p q = continuous_grid q p"
  by (simp add: continuous_grid_def amin_def amax_def min.commute max.commute)

lemma build_pdfs_commute:
  "build_pdfs q p discrete = map_sum id prod.swap (build_pdfs p q discrete)"
proof (cases discrete)
  case True
  show ?thesis
    unfolding build_pdfs_def discrete_grid_commute [of q p]
    by (cases "discrete_grid p q") (simp_all add: True pmf_def pmf_counts_def)
next
  case False
  show ?thesis
  proof (cases "continuous_grid p q")
    case (Inl e)
    then show ?thesis
      using False continuous_grid_commute [of q p] by (simp add: build_pdfs_def)
  next
    case (Inr x)
    then have "p \<noteq> []" and "q \<noteq> []"
      by (auto simp: continuous_grid_def amin_def split: if_splits)
    then obtain P Q where "estimate_pdf p x = Inr P" and "estimate_pdf q x = Inr Q"
      by (simp add: estimate_pdf_def Let_def)
    then show ?thesis
      using False Inr continuous_grid_commute [of q p]
      by (simp add: build_pdfs_def)
  qed
qed

lemma np_square_subtract_commute:
  "np_square (np_subtract a b) = np_square (np_subtract b a)"
  by (cases a; cases b) (simp_all add: np_subtract_def power2_commute)

lemma np_minimum_commute: "np_minimum a b = np_minimum b a"
  by (cases a; cases b) (simp_all add: min.commute)

lemma js_term_commute: "js_term a b = js_term b a"
  by (cases a; cases b) (simp_all add: add.commute)

lemma map2_commute:
  "(\<And>a b. f a b = f b a) \<Longrightarrow> map2 f u v = map2 f v u"
  by (induction u v rule: list_induct2') simp_all

lemma hellinger_commute: "hellinger u v = hellinger v u"
proof -
  have "map np_square (map2 np_subtract a b) = map np_square (map2 np_subtract b a)" for a b
    by (induction a b rule: list_induct2') (simp_all add: np_square_subtract_commute)
  then show ?thesis
    by (simp only: hellinger_def)
qed

lemma min_overlap_commute: "min_overlap u v = min_overlap v u"
  by (simp add: min_overlap_def map2_commute [of np_minimum u v] np_minimum_commute)

lemma jensenshannon_commute: "jensenshannon u v = jensenshannon v u"
  by (simp add: jensenshannon_def map2_commute [of js_term u v] js_term_commute)

lemma ks_2samp_commute: "ks_2samp p q = ks_2samp q p"
proof -
  have f: "(\<lambda>t. \<bar>ecdf p t - ecdf q t\<bar>) = (\<lambda>t. \<bar>ecdf q t - ecdf p t\<bar>)"
    by (rule ext) (rule abs_minus_commute)
  have s: "set (p @ q) = set (q @ p)"
    by auto
  have "Max ((\<lambda>t. \<bar>ecdf p t - ecdf q t\<bar>) ` set (p @ q))
      = Max ((\<lambda>t. \<bar>ecdf q t - ecdf p t\<bar>) ` set (q @ p))"
    by (simp only: f s)
  then show ?thesis
    by (simp only: ks_2samp_def disj_commute [of "p = []"])
qed

lemma distance_commute:
  "distance_pior_posterior p q method discrete = distance_pior_posterior q p method discrete"
proof (cases "build_pdfs p q discrete")
  case (Inl e)
  then show ?thesis
    by (simp add: distance_pior_posterior_def ks_2samp_commute [of p q]
        build_pdfs_commute [of q p])
next
  case (Inr pdfs)
  obtain u v where "pdfs = (u, v)"
    by (cases pdfs)
  with Inr show ?thesis
    by (simp add: distance_pior_posterior_def ks_2samp_commute [of p q]
        build_pdfs_commute [of q p] hellinger_commute [of u v]
        min_overlap_commute [of u v] jensenshannon_commute [of u v])
qed

text \<open>
  C8. The distance function is symmetric in its two collections: exchanging them changes
  nothing, for every method string, both values of the flag and all collections.
\<close>

theorem distance_symmetric:
  "distance_pior_posterior p q method discrete = distance_pior_posterior q p method discrete"
  by (rule distance_commute)

text \<open>
  C5, as the code has it. A method string that is none of \<^verbatim>\<open>"KS"\<close>,
  \<^verbatim>\<open>"Hellinger"\<close>, \<^verbatim>\<open>"JS"\<close>, \<^verbatim>\<open>"min"\<close> makes the distance function return no
  number, whatever the collections and the flag. The code has no check of the method and
  no error of its own for it: neither estimator runs, no vector is assigned, and the last
  \<^verbatim>\<open>else\<close> fails when it reads \<^verbatim>\<open>p_pdf\<close>, with Python's error for an unassigned
  local variable.
\<close>

theorem invalid_method_raises:
  assumes "method \<notin> {''KS'', ''Hellinger'', ''JS'', ''min''}"
  shows "distance_pior_posterior p q method discrete = Inl Unbound_Local_Error"
  using assms by (simp add: distance_pior_posterior_def)

theorem invalid_method_raises_witness:
  "distance_pior_posterior [1, 2] [3] ''bogus'' True = Inl Unbound_Local_Error"
  by (rule invalid_method_raises) simp

text \<open>
  The claim C5 as the specification states it fails: with the method \<^verbatim>\<open>"bogus"\<close> the
  error is not the invalid-method error.
\<close>

theorem invalid_method_counterexample:
  "distance_pior_posterior [1, 2] [3] ''bogus'' True = Inl Unbound_Local_Error
   \<and> distance_pior_posterior [1, 2] [3] ''bogus'' True \<noteq> Inl Invalid_Method"
  by (simp add: distance_pior_posterior_def)

subsection \<open>An empty collection\<close>

lemma diff_zeros: "set cs \<subseteq> {0} \<Longrightarrow> set (diff cs) \<subseteq> {0}"
  by (induction cs rule: diff.induct) simp_all

lemma pmf_empty_samples:
  assumes "x \<noteq> []"
  shows "pmf [] x = Inr (replicate (length x) NaN)"
proof -
  from assms obtain t ts where x: "x = t # ts"
    by (cases x) auto
  define raw where "raw = count_le [] t # diff (map (count_le []) (t # ts))"
  have zeros: "set raw \<subseteq> {0}"
    unfolding raw_def using diff_zeros [of "map (count_le []) (t # ts)"]
    by (auto simp: count_le_def)
  then have "sum_list raw = 0"
    by (induction raw) auto
  then have "pmf [] x = Inr (map (\<lambda>m. np_true_divide (Fin (of_int m)) (Fin 0)) raw)"
    by (simp add: pmf_def x pmf_counts_Cons raw_def)
  also have "map (\<lambda>m. np_true_divide (Fin (of_int m)) (Fin 0)) raw = map (\<lambda>m. NaN) raw"
    using zeros by (intro map_cong) auto
  also have "\<dots> = replicate (length raw) NaN"
    by (simp add: map_replicate_const)
  also have "length raw = length x"
    by (simp add: raw_def x length_diff)
  finally show ?thesis .
qed

lemma pmf_length: "pmf p x = Inr P \<Longrightarrow> length P = length x"
  by (cases x) (auto simp: pmf_def pmf_counts_def length_diff)

lemma pmf_defined: "x \<noteq> [] \<Longrightarrow> \<exists>P. pmf p x = Inr P"
  by (cases x) (simp_all add: pmf_def pmf_counts_def)

lemma map2_replicate_left: "map2 f (replicate (length v) c) v = map (f c) v"
  by (induction v) simp_all

lemma np_sum_all_NaN: "v \<noteq> [] \<Longrightarrow> np_sum (map (\<lambda>a. NaN) v) = NaN"
  by (cases v) simp_all

lemma np_minimum_NaN_right [simp]: "np_minimum a NaN = NaN"
  by (cases a) simp_all

lemma js_term_NaN_left [simp]: "js_term NaN b = NaN"
  by simp

lemma js_term_NaN_right [simp]: "js_term a NaN = NaN"
  by (cases a) simp_all

lemma js_term_NaN_fun: "js_term NaN = (\<lambda>b. NaN)"
  by (rule ext) simp

lemma np_minimum_NaN_fun: "np_minimum NaN = (\<lambda>b. NaN)"
  by (rule ext) simp

lemma metrics_NaN_left:
  assumes "v \<noteq> []"
  shows "hellinger (replicate (length v) NaN) v = NaN"
    and "jensenshannon (replicate (length v) NaN) v = NaN"
    and "min_overlap (replicate (length v) NaN) v = NaN"
proof -
  have "map2 np_subtract (map np_sqrt (replicate (length v) NaN)) (map np_sqrt v)
      = map (\<lambda>a. NaN) (map np_sqrt v)"
    using map2_replicate_left [of np_subtract "map np_sqrt v" NaN]
    by (simp add: np_subtract_def)
  then show "hellinger (replicate (length v) NaN) v = NaN"
    using assms by (simp add: hellinger_def comp_def np_sum_all_NaN)
  show "jensenshannon (replicate (length v) NaN) v = NaN"
    using assms
    by (simp add: jensenshannon_def map2_replicate_left js_term_NaN_fun np_sum_all_NaN)
  show "min_overlap (replicate (length v) NaN) v = NaN"
    using assms
    by (simp add: min_overlap_def map2_replicate_left np_minimum_NaN_fun np_sum_all_NaN
        np_subtract_def)
qed

lemma build_pdfs_one_empty:
  assumes "q \<noteq> []"
  shows "\<exists>Q. Q \<noteq> [] \<and> build_pdfs [] q True = Inr (replicate (length Q) NaN, Q)"
proof -
  have ne: "discrete_grid [] q \<noteq> []"
    using assms by (simp add: discrete_grid_def unique_Nil_iff)
  from pmf_defined [OF this] obtain Q where Q: "pmf q (discrete_grid [] q) = Inr Q"
    by blast
  from pmf_length [OF this] ne have "Q \<noteq> []" and "length (discrete_grid [] q) = length Q"
    by auto
  then show ?thesis
    using pmf_empty_samples [OF ne] Q by (auto simp: build_pdfs_def)
qed

lemma distance_one_empty:
  assumes "q \<noteq> []" and "method \<in> {''Hellinger'', ''JS'', ''min''}"
  shows "distance_pior_posterior [] q method True = Inr NaN"
proof -
  from build_pdfs_one_empty [OF assms(1)] obtain Q where
    "Q \<noteq> []" and "build_pdfs [] q True = Inr (replicate (length Q) NaN, Q)"
    by blast
  then show ?thesis
    using assms(2) by (auto simp: distance_pior_posterior_def metrics_NaN_left)
qed

lemma build_pdfs_continuous_empty:
  "p = [] \<or> q = [] \<Longrightarrow> build_pdfs p q False = Inl Value_Error"
  by (auto simp: build_pdfs_def continuous_grid_def amin_def)

lemma build_pdfs_both_empty: "build_pdfs [] [] True = Inl Index_Error"
  by (simp add: build_pdfs_def discrete_grid_def unique_def pmf_def pmf_counts_def)

text \<open>
  C2, as the code has it. The distance function has no check of its own for an empty
  collection. With at least one empty collection: the method \<^verbatim>\<open>"KS"\<close> raises the
  empty-input error of the two-sample statistic; the other three methods with the flag
  unset raise the error of the minimum of an empty array, and with the flag set and both
  collections empty the error of indexing an empty array; with the flag set and exactly
  one collection empty they raise nothing and return \<^verbatim>\<open>nan\<close>.
\<close>

theorem empty_collection_outcomes:
  assumes "p = [] \<or> q = []" and "method \<in> {''Hellinger'', ''JS'', ''min''}"
  shows "distance_pior_posterior p q ''KS'' discrete = Inl Empty_Input
    \<and> distance_pior_posterior p q method False = Inl Value_Error
    \<and> distance_pior_posterior p q method True
        = (if p = [] \<and> q = [] then Inl Index_Error else Inr NaN)"
proof -
  have ks: "distance_pior_posterior p q ''KS'' discrete = Inl Empty_Input"
    using assms(1) by (simp add: distance_pior_posterior_def ks_2samp_def)
  have cont: "distance_pior_posterior p q method False = Inl Value_Error"
    using assms(2) build_pdfs_continuous_empty [OF assms(1)]
    by (auto simp: distance_pior_posterior_def)
  have disc: "distance_pior_posterior p q method True
        = (if p = [] \<and> q = [] then Inl Index_Error else Inr NaN)"
  proof (cases "p = [] \<and> q = []")
    case True
    then show ?thesis
      using assms(2) build_pdfs_both_empty by (auto simp: distance_pior_posterior_def)
  next
    case False
    with assms(1) consider "p = []" "q \<noteq> []" | "q = []" "p \<noteq> []"
      by blast
    then have "distance_pior_posterior p q method True = Inr NaN"
    proof cases
      case 1
      then show ?thesis
        using distance_one_empty [OF _ assms(2)] by simp
    next
      case 2
      then show ?thesis
        using distance_one_empty [OF _ assms(2), of p]
          distance_commute [of p "[]" "method" True]
        by simp
    qed
    with False show ?thesis by simp
  qed
  from ks cont disc show ?thesis by blast
qed

theorem empty_collection_outcomes_witness:
  "distance_pior_posterior [] [1, 2] ''KS'' True = Inl Empty_Input
   \<and> distance_pior_posterior [] [1, 2] ''min'' False = Inl Value_Error
   \<and> distance_pior_posterior [] [1, 2] ''min'' True = Inr NaN"
proof -
  have "([]::real list) = [] \<or> [1, 2::real] = []"
    and "''min'' \<in> {''Hellinger'', ''JS'', ''min''}"
    by simp_all
  from empty_collection_outcomes [OF this, of True] show ?thesis
    by simp
qed

text \<open>
  The claim C2 as the specification states it fails: with the method \<^verbatim>\<open>"Hellinger"\<close>
  and the flag set, an empty first collection and the second collection \<open>[1]\<close> raise
  nothing; the mass vector of the empty collection is \<open>0 / 0\<close> and the function returns
  \<^verbatim>\<open>nan\<close>.
\<close>

theorem empty_input_counterexample:
  "pmf [] (discrete_grid [] [1]) = Inr [NaN]
   \<and> distance_pior_posterior [] [1] ''Hellinger'' True = Inr NaN"
  by (simp add: distance_pior_posterior_def build_pdfs_def discrete_grid_def unique_def
      pmf_def pmf_counts_def count_le_def hellinger_def np_subtract_def)

subsection \<open>Underflow in the continuous estimator\<close>

lemma linspace_far_from_50:
  assumes "t \<in> set (linspace 0 10000 100)"
  shows "47 \<le> \<bar>t - 50\<bar>"
proof -
  from assms obtain i where i: "i < 100" and t: "t = real i * (10000 / 99)"
    by (auto simp: linspace_def)
  show ?thesis
  proof (cases "i = 0")
    case True
    with t show ?thesis by simp
  next
    case False
    then have "1 \<le> real i" by simp
    then have "1 * (10000 / 99) \<le> real i * (10000 / 99 :: real)"
      by (intro mult_right_mono) simp_all
    with t show ?thesis by simp
  qed
qed

lemma continuous_grid_example:
  "continuous_grid [0, 10000] [50] = Inr (linspace 0 10000 100)"
  by (simp add: continuous_grid_def amin_def amax_def)

lemma estimate_pdf_example:
  "estimate_pdf [50] (linspace 0 10000 100) = Inr (replicate 100 NaN)"
  using estimate_pdf_underflow [of "[50]" "linspace 0 10000 100"] linspace_far_from_50
  by (simp add: length_linspace)

text \<open>
  C4, where the code fails. The claim asks that for two non-empty collections the vector
  of the continuous estimator has 100 entries, sums to 1 and has no negative entry. With
  the collections \<open>[0, 10000]\<close> and \<open>[50]\<close> the grid is the 100 equally spaced points
  from 0 to 10000; each of them is 50 or more away from the sample 50, so every kernel of
  the second collection is \<open>0.0\<close>, its total is \<open>0.0\<close>, and the estimator returns for it
  100 entries that are all \<^verbatim>\<open>nan\<close>, whose sum is \<^verbatim>\<open>nan\<close>.
\<close>

theorem continuous_estimator_underflow:
  "continuous_grid [0, 10000] [50] = Inr (linspace 0 10000 100)
   \<and> length (linspace 0 10000 100) = 100
   \<and> estimate_pdf [50] (linspace 0 10000 100) = Inr (replicate 100 NaN)
   \<and> np_sum (replicate 100 NaN) = NaN"
proof -
  have "NaN \<in> set (replicate 100 NaN)"
    by simp
  then have "np_sum (replicate 100 NaN) = NaN"
    by (rule np_sum_NaN)
  then show ?thesis
    by (simp add: continuous_grid_example estimate_pdf_example length_linspace)
qed

text \<open>
  C7, where the code fails. The claim asks that for two non-empty collections and either
  value of the flag the method \<^verbatim>\<open>"Hellinger"\<close> returns a number between 0 and 1. With
  the collections \<open>[0, 10000]\<close> and \<open>[50]\<close> and the flag unset, the vector of the
  second collection is all \<^verbatim>\<open>nan\<close> and the function returns \<^verbatim>\<open>nan\<close>.
\<close>

theorem hellinger_underflow:
  "distance_pior_posterior [0, 10000] [50] ''Hellinger'' False = Inr NaN"
proof -
  obtain P where P: "estimate_pdf [0, 10000] (linspace 0 10000 100) = Inr P"
    using estimate_pdf_eq [of "[0, 10000]"] by simp
  from estimate_pdf_length [OF this] have len: "length P = 100"
    by (simp add: length_linspace)
  have "build_pdfs [0, 10000] [50] False = Inr (P, replicate (length P) NaN)"
    by (simp add: build_pdfs_def continuous_grid_example P estimate_pdf_example len)
  from distance_Hellinger [OF this]
  have "distance_pior_posterior [0, 10000] [50] ''Hellinger'' False
      = Inr (hellinger (replicate (length P) NaN) P)"
    by (simp add: hellinger_commute [of P])
  moreover have "P \<noteq> []"
    using len by auto
  ultimately show ?thesis
    by (simp add: metrics_NaN_left(1))
qed

end
